theory Spec2Isabelle
  imports Complex_Main "HOL-Library.AList" "HOL-Library.Char_ord" "HOL-Library.List_Lexorder"
    "HOL-Library.Sublist"
begin

section \<open>PhyloRank: decorating a tree with taxon labels (phylorank/decorate.py)\<close>

text \<open>
  A shallow embedding of class \<open>Decorate\<close>. Python floats are read as exact
  rationals (\<^typ>\<open>rat\<close>); a raised exception is the \<open>Inl\<close> branch of a sum.
\<close>

subsection \<open>Errors\<close>

datatype py_error =
  KeyError | IndexError | ValueError | ZeroDivisionError | AttributeError | SystemExit

subsection \<open>The rank tables of biolib's Taxonomy class\<close>

text \<open>
  Modelled from the spec: \<open>Taxonomy.rank_prefixes\<close> and \<open>Taxonomy.rank_labels\<close> belong to
  the biolib library, which is not part of the source tree. The spec (sections 3 and 6)
  gives a fixed general-to-specific list of ranks, domain to species, each with its own
  placeholder for a missing classification; the source reads a placeholder off a name
  with \<open>taxon[0:3]\<close>, so each placeholder has three characters.
\<close>

definition rank_prefixes :: "string list" where
  "rank_prefixes = [''d__'', ''p__'', ''c__'', ''o__'', ''f__'', ''g__'', ''s__'']"

definition rank_labels :: "string list" where
  "rank_labels = [''domain'', ''phylum'', ''class'', ''order'', ''family'', ''genus'', ''species'']"

text \<open>Python's \<open>xs.index(x)\<close>: the first position of \<open>x\<close>, or ValueError.\<close>

fun index_of :: "'a list \<Rightarrow> 'a \<Rightarrow> nat option" where
  "index_of [] x = None"
| "index_of (y # ys) x = (if y = x then Some 0 else map_option Suc (index_of ys x))"

subsection \<open>The tree\<close>

text \<open>
  A dendropy node: its identity, \<open>taxon.label\<close> (read on leaves only) and its
  children in order. A node without children is a leaf.
\<close>

datatype tree = Node (nid: nat) (leaf_taxon: string) (child_nodes: "tree list")

fun preorder_iter :: "tree \<Rightarrow> tree list" where
  "preorder_iter (Node i l cs) = Node i l cs # concat (map preorder_iter cs)"

fun leaf_iter :: "tree \<Rightarrow> tree list" where
  "leaf_iter (Node i l cs) =
     (if cs = [] then [Node i l cs] else concat (map leaf_iter cs))"

text \<open>
  \<open>parent_node\<close>: for every leaf, in leaf order, the chain that starts at the leaf and
  follows the parent links up to the seed node.
\<close>

fun parent_chains :: "tree list \<Rightarrow> tree \<Rightarrow> tree list list" where
  "parent_chains anc (Node i l cs) =
     (if cs = [] then [Node i l cs # anc]
      else concat (map (parent_chains (Node i l cs # anc)) cs))"

subsection \<open>Node labels\<close>

text \<open>
  Modelled from the spec: \<open>parse_label\<close> and \<open>create_label\<close> belong to biolib.newick,
  which is not part of the source tree. Following sections 3, 6 and 9 of the spec, a
  node's label is a support value, the taxon names joined by semicolons, and auxiliary
  text; it is kept here in parsed form, the taxon names as the list of tokens that
  \<open>split(';')\<close> and \<open>strip()\<close> give, so \<open>parse_label\<close> reads the three fields and
  \<open>create_label\<close> stores them. A label is the value of \<open>node.label\<close>; the labels of all
  nodes form a store indexed by node identity.
\<close>

record label =
  lbl_support :: "rat option"
  lbl_taxa :: "string list"
  lbl_aux :: "string option"

definition parse_label :: "label \<Rightarrow> rat option \<times> string list \<times> string option" where
  "parse_label l = (lbl_support l, lbl_taxa l, lbl_aux l)"

definition create_label :: "rat option \<Rightarrow> string list \<Rightarrow> string option \<Rightarrow> label" where
  "create_label s t a = \<lparr>lbl_support = s, lbl_taxa = t, lbl_aux = a\<rparr>"

type_synonym labels = "nat \<Rightarrow> label"

subsection \<open>The taxonomy and its derived views\<close>

text \<open>
  The taxonomy is a Python dict from a leaf's taxon label to its list of taxa, one per
  rank: an association list in insertion order, whose keys are distinct.
\<close>

type_synonym taxonomy = "(string \<times> string list) list"

text \<open>
  Modelled from the spec: \<open>named_lineages_at_rank\<close>, \<open>extant_taxa_for_rank\<close>, \<open>parents\<close>
  and \<open>sort_taxa\<close> are methods of biolib's Taxonomy class, which is not part of the
  source tree. Section 6 of the spec names them \<open>taxa_at_rank\<close> (the named taxa of a
  rank, the placeholder left out), \<open>leaves_for_taxon\<close> (the leaf ids that carry a taxon
  at a rank), \<open>parent_taxon\<close> and the canonical rank-then-name sort. Python iterates the
  set of taxa of a rank in no fixed order; here it is the order of first occurrence.
  The definitions are total; \<open>fmeasure\<close> below raises what the methods raise on a record
  that has not exactly one entry per rank.
\<close>

definition named_lineages_at_rank :: "taxonomy \<Rightarrow> nat \<Rightarrow> string list" where
  "named_lineages_at_rank taxonomy i =
     remdups (filter (\<lambda>taxon. taxon \<noteq> rank_prefixes ! i)
       (map (\<lambda>(taxon_id, taxa). taxa ! i) taxonomy))"

definition extant_taxa_for_rank :: "taxonomy \<Rightarrow> nat \<Rightarrow> string \<Rightarrow> string list" where
  "extant_taxa_for_rank taxonomy i taxon =
     remdups (map fst (filter (\<lambda>(taxon_id, taxa).
        taxa ! i \<noteq> rank_prefixes ! i \<and> taxa ! i = taxon) taxonomy))"

text \<open>
  \<open>parents\<close>: a defaultdict(list), so a name never stored reads as the empty list. Every
  record first stores itself under its leaf id, then the ranks above each of its taxa
  under that taxon's name; a later record overwrites an earlier one.
\<close>

definition parents_record :: "(string \<Rightarrow> string list) \<Rightarrow> string \<times> string list \<Rightarrow> string \<Rightarrow> string list" where
  "parents_record p rec =
     fold (\<lambda>i q. q(snd rec ! i := take i (snd rec))) [1..<length (snd rec)]
       (p(fst rec := snd rec))"

definition parents :: "taxonomy \<Rightarrow> string \<Rightarrow> string list" where
  "parents taxonomy = fold (\<lambda>rec p. parents_record p rec) taxonomy (\<lambda>taxon. [])"

definition startswith :: "string \<Rightarrow> string \<Rightarrow> bool" where
  "startswith s p = (take (length p) s = p)"

definition sort_taxa :: "string list \<Rightarrow> bool \<Rightarrow> string list" where
  "sort_taxa taxa reverse =
     (let ordered_taxa = concat (map (\<lambda>rank_prefix.
              sort (filter (\<lambda>taxon. startswith taxon rank_prefix) taxa)) rank_prefixes)
      in if reverse then rev ordered_taxa else ordered_taxa)"

subsection \<open>Lowest common ancestor\<close>

text \<open>
  Modelled from the spec: \<open>Tree.mrca\<close> belongs to dendropy, which is not part of the
  source tree; section 6 and the glossary of the spec make it the deepest node that is
  an ancestor of every leaf of a given set. It walks down from the seed node, into a
  child whose leaves hold all the given taxa, for as long as there is one. It raises
  ValueError on an empty set, and gives None (on which the caller's attribute access
  fails) when the tree does not hold every taxon.
\<close>

definition holds_taxa :: "string list \<Rightarrow> tree \<Rightarrow> bool" where
  "holds_taxa taxa n = (set taxa \<subseteq> set (map leaf_taxon (leaf_iter n)))"

function mrca_from :: "string list \<Rightarrow> tree \<Rightarrow> tree" where
  "mrca_from taxa (Node i l cs) =
     (case find (holds_taxa taxa) cs of
        None \<Rightarrow> Node i l cs
      | Some c \<Rightarrow> mrca_from taxa c)"
  by pat_completeness auto
termination
proof (relation "measure (\<lambda>(taxa, n). size n)")
  show "wf (measure (\<lambda>(taxa, n). size n))" by simp
next
  fix taxa :: "string list" and i l cs c
  assume "find (holds_taxa taxa) cs = Some c"
  then have "c \<in> set cs"
    by (auto simp: find_Some_iff)
  then have "size c < Suc (size_list size cs)"
    by (induction cs) auto
  then show "((taxa, c), (taxa, Node i l cs)) \<in> measure (\<lambda>(taxa, n). size n)"
    by simp
qed

definition mrca :: "tree \<Rightarrow> string list \<Rightarrow> py_error + tree" where
  "mrca t taxa =
     (if taxa = [] then Inl ValueError
      else if \<not> holds_taxa taxa t then Inl AttributeError
      else Inr (mrca_from taxa t))"

subsection \<open>Subtree profiles\<close>

text \<open>
  The counting pass of \<open>_fmeasure\<close>. \<open>node.taxa_count[rank_index][taxon]\<close> is the number
  of leaves below the node whose record names the taxon at that rank, the placeholder
  not counted; a name never counted reads as 0. \<open>sum(node.taxa_count[rank_index].values())\<close>
  is the number of leaves below the node with a named taxon at that rank.
  \<open>taxa_in_tree[taxon]\<close> counts the entries equal to the taxon in the records of all
  leaves, at any rank.
\<close>

definition taxa_of :: "taxonomy \<Rightarrow> tree \<Rightarrow> string list" where
  "taxa_of taxonomy leaf = (case map_of taxonomy (leaf_taxon leaf) of None \<Rightarrow> [] | Some taxa \<Rightarrow> taxa)"

definition taxa_count :: "taxonomy \<Rightarrow> tree \<Rightarrow> nat \<Rightarrow> string \<Rightarrow> nat" where
  "taxa_count taxonomy node rank_index taxon =
     length (filter (\<lambda>leaf. rank_index < length (taxa_of taxonomy leaf)
                 \<and> taxa_of taxonomy leaf ! rank_index = taxon
                 \<and> taxon \<noteq> rank_prefixes ! rank_index) (leaf_iter node))"

definition num_leaves_with_taxa :: "taxonomy \<Rightarrow> tree \<Rightarrow> nat \<Rightarrow> nat" where
  "num_leaves_with_taxa taxonomy node rank_index =
     length (filter (\<lambda>leaf. rank_index < length (taxa_of taxonomy leaf)
                 \<and> taxa_of taxonomy leaf ! rank_index \<noteq> rank_prefixes ! rank_index) (leaf_iter node))"

definition taxa_in_tree :: "taxonomy \<Rightarrow> tree \<Rightarrow> string \<Rightarrow> nat" where
  "taxa_in_tree taxonomy t taxon =
     sum_list (map (\<lambda>leaf. count_list (taxa_of taxonomy leaf) taxon) (leaf_iter t))"

subsection \<open>F-measure placement search\<close>

text \<open>
  A candidate placement is the tuple (node, F-measure, precision, recall); the dict
  \<open>fmeasure_for_taxa\<close> is an association list in insertion order, updated as a Python
  dict is: in place when the key is there, at the end otherwise.
\<close>

type_synonym candidate = "tree \<times> rat \<times> rat \<times> rat"

type_synonym fmeasures = "(string \<times> candidate list) list"

text \<open>
  Lines 97 to 126: the node whose subtree is searched for a taxon, or None where the
  loop says \<open>continue\<close>. \<open>taxon_parents[taxon][-1]\<close> raises IndexError on an empty list.
\<close>

definition taxon_parent_node ::
  "tree \<Rightarrow> taxonomy \<Rightarrow> fmeasures \<Rightarrow> nat \<Rightarrow> string \<Rightarrow> py_error + tree option" where
  "taxon_parent_node t taxonomy fmeasure_for_taxa rank_index taxon =
     (if rank_index = 0 then Inr (Some t)
      else if parents taxonomy taxon = [] then Inl IndexError
      else
        let parent_taxon = last (parents taxonomy taxon) in
        case map_of fmeasure_for_taxa parent_taxon of
          None \<Rightarrow> Inr None
        | Some data \<Rightarrow>
            let parent_nodes = map fst data in
            case (if length parent_nodes = 1 then Inr (hd parent_nodes)
                  else mrca t (concat (map (\<lambda>p. map leaf_taxon (leaf_iter p)) parent_nodes))) of
              Inl e \<Rightarrow> Inl e
            | Inr node \<Rightarrow>
                if of_nat (taxa_count taxonomy node rank_index taxon)
                     < (1 / 2 :: rat) * of_nat (taxa_in_tree taxonomy t taxon)
                then Inr (Some t)
                else Inr (Some node))"

text \<open>Lines 136 to 138, for a node that passes the test of line 135.\<close>

definition precision_of :: "nat \<Rightarrow> nat \<Rightarrow> rat" where
  "precision_of taxa_in_lineage num_with_taxa = of_nat taxa_in_lineage / of_nat num_with_taxa"

definition recall_of :: "nat \<Rightarrow> nat \<Rightarrow> rat" where
  "recall_of taxa_in_lineage total_taxa = of_nat taxa_in_lineage / of_nat total_taxa"

definition fmeasure_of :: "rat \<Rightarrow> rat \<Rightarrow> rat" where
  "fmeasure_of precision recall = (2 * precision * recall) / (precision + recall)"

text \<open>
  Lines 132 to 138: the score of a node, None where the node is skipped. A division by
  zero raises ZeroDivisionError.
\<close>

definition node_score ::
  "taxonomy \<Rightarrow> nat \<Rightarrow> string \<Rightarrow> nat \<Rightarrow> tree \<Rightarrow> py_error + candidate option" where
  "node_score taxonomy rank_index taxon total_taxa node =
     (let taxa_in_lineage = taxa_count taxonomy node rank_index taxon;
          num_with_taxa = num_leaves_with_taxa taxonomy node rank_index
      in if taxa_in_lineage \<noteq> 0 \<and> num_with_taxa \<noteq> 0 then
           if total_taxa = 0 then Inl ZeroDivisionError
           else
             let precision = precision_of taxa_in_lineage num_with_taxa;
                 recall = recall_of taxa_in_lineage total_taxa
             in if precision + recall = 0 then Inl ZeroDivisionError
                else Inr (Some (node, fmeasure_of precision recall, precision, recall))
         else Inr None)"

text \<open>
  Lines 131 to 144: the loop over the nodes of the search region, in preorder. Its state
  is \<open>cur_taxon_fmeasure\<close> and the dict; \<open>fmeasure_for_taxa[taxon].append\<close> raises
  KeyError when the dict has no entry for the taxon.
\<close>

fun search_nodes ::
  "taxonomy \<Rightarrow> nat \<Rightarrow> string \<Rightarrow> nat \<Rightarrow> tree list \<Rightarrow> rat \<Rightarrow> fmeasures \<Rightarrow> py_error + fmeasures" where
  "search_nodes taxonomy rank_index taxon total_taxa [] cur fm = Inr fm"
| "search_nodes taxonomy rank_index taxon total_taxa (node # nodes) cur fm =
     (case node_score taxonomy rank_index taxon total_taxa node of
        Inl e \<Rightarrow> Inl e
      | Inr None \<Rightarrow> search_nodes taxonomy rank_index taxon total_taxa nodes cur fm
      | Inr (Some (n, fmeasure, precision, recall)) \<Rightarrow>
          if fmeasure > cur then
            search_nodes taxonomy rank_index taxon total_taxa nodes fmeasure
              (AList.update taxon [(n, fmeasure, precision, recall)] fm)
          else if fmeasure = cur then
            (case map_of fm taxon of
               None \<Rightarrow> Inl KeyError
             | Some cands \<Rightarrow>
                 search_nodes taxonomy rank_index taxon total_taxa nodes cur
                   (AList.update taxon (cands @ [(n, fmeasure, precision, recall)]) fm))
          else search_nodes taxonomy rank_index taxon total_taxa nodes cur fm)"

text \<open>Lines 97 to 144: the body of the loop over the taxa of a rank.\<close>

definition process_taxon ::
  "tree \<Rightarrow> taxonomy \<Rightarrow> nat \<Rightarrow> string \<Rightarrow> fmeasures \<Rightarrow> py_error + fmeasures" where
  "process_taxon t taxonomy rank_index taxon fm =
     (case taxon_parent_node t taxonomy fm rank_index taxon of
        Inl e \<Rightarrow> Inl e
      | Inr None \<Rightarrow> Inr fm
      | Inr (Some search_root) \<Rightarrow>
          search_nodes taxonomy rank_index taxon
            (length (extant_taxa_for_rank taxonomy rank_index taxon))
            (preorder_iter search_root) (- 1) fm)"

fun process_taxa ::
  "tree \<Rightarrow> taxonomy \<Rightarrow> nat \<Rightarrow> string list \<Rightarrow> fmeasures \<Rightarrow> py_error + fmeasures" where
  "process_taxa t taxonomy rank_index [] fm = Inr fm"
| "process_taxa t taxonomy rank_index (taxon # taxa) fm =
     (case process_taxon t taxonomy rank_index taxon fm of
        Inl e \<Rightarrow> Inl e
      | Inr fm' \<Rightarrow> process_taxa t taxonomy rank_index taxa fm')"

fun process_ranks ::
  "tree \<Rightarrow> taxonomy \<Rightarrow> nat list \<Rightarrow> fmeasures \<Rightarrow> py_error + fmeasures" where
  "process_ranks t taxonomy [] fm = Inr fm"
| "process_ranks t taxonomy (rank_index # ranks) fm =
     (case process_taxa t taxonomy rank_index (named_lineages_at_rank taxonomy rank_index) fm of
        Inl e \<Rightarrow> Inl e
      | Inr fm' \<Rightarrow> process_ranks t taxonomy ranks fm')"

text \<open>
  \<open>_fmeasure\<close>. The passes before the search raise on a malformed taxonomy:
  \<open>named_lineages_at_rank\<close> reads \<open>rank_prefixes[i]\<close> for every entry of every record
  (IndexError on a record with more entries than ranks), \<open>extant_taxa_for_rank\<close> reads
  \<open>taxa[rank_index]\<close> for every rank (IndexError on a record with fewer), and the
  counting pass reads \<open>taxonomy[leaf.taxon.label]\<close> for every leaf (KeyError).
\<close>

definition fmeasure :: "tree \<Rightarrow> taxonomy \<Rightarrow> py_error + fmeasures" where
  "fmeasure t taxonomy =
     (if list_ex (\<lambda>(taxon_id, taxa). length taxa > length rank_prefixes) taxonomy then Inl IndexError
      else if list_ex (\<lambda>(taxon_id, taxa). length taxa < length rank_labels) taxonomy then Inl IndexError
      else if list_ex (\<lambda>leaf. map_of taxonomy (leaf_taxon leaf) = None) (leaf_iter t) then Inl KeyError
      else process_ranks t taxonomy [0..<length rank_labels] [])"

subsection \<open>Stripping and assigning labels\<close>

text \<open>
  \<open>_strip_taxon_labels\<close>: over the internal nodes, in preorder. \<open>if support\<close> holds for
  a support value that is neither None nor zero.
\<close>

definition strip_node :: "labels \<Rightarrow> tree \<Rightarrow> labels" where
  "strip_node lbls node =
     (case parse_label (lbls (nid node)) of
        (support, _, _) \<Rightarrow>
          if support \<noteq> None \<and> support \<noteq> Some 0
          then lbls(nid node := create_label support [] None)
          else lbls)"

definition internal_nodes :: "tree \<Rightarrow> tree list" where
  "internal_nodes t = filter (\<lambda>n. child_nodes n \<noteq> []) (preorder_iter t)"

definition strip_taxon_labels :: "tree \<Rightarrow> labels \<Rightarrow> labels" where
  "strip_taxon_labels t lbls = fold (\<lambda>node l. strip_node l node) (internal_nodes t) lbls"

text \<open>
  \<open>_assign_taxon_labels\<close>: the body of its loop (lines 178 to 187), and the loop over
  the sorted keys. The state is the set \<open>placed_taxon\<close> and the label store.
\<close>

definition assign_taxon ::
  "fmeasures \<Rightarrow> string \<Rightarrow> string set \<times> labels \<Rightarrow> py_error + string set \<times> labels" where
  "assign_taxon fm taxon st =
     (case st of (placed_taxon, lbls) \<Rightarrow>
        case map_of fm taxon of
          None \<Rightarrow> Inl KeyError
        | Some data \<Rightarrow>
            if length data = 1 then
              (case hd data of (node, _, _, _) \<Rightarrow>
                 case parse_label (lbls (nid node)) of
                   (support, taxon_label, aux_info) \<Rightarrow>
                     Inr (insert taxon placed_taxon,
                          lbls(nid node := create_label support
                                 (if taxon_label \<noteq> [] then taxon_label @ [taxon] else [taxon])
                                 aux_info)))
            else Inr st)"

fun assign_loop ::
  "fmeasures \<Rightarrow> string list \<Rightarrow> string set \<times> labels \<Rightarrow> py_error + string set \<times> labels" where
  "assign_loop fm [] st = Inr st"
| "assign_loop fm (taxon # taxa) st =
     (case assign_taxon fm taxon st of
        Inl e \<Rightarrow> Inl e
      | Inr st' \<Rightarrow> assign_loop fm taxa st')"

definition assign_taxon_labels :: "fmeasures \<Rightarrow> labels \<Rightarrow> py_error + string set \<times> labels" where
  "assign_taxon_labels fm lbls = assign_loop fm (sort_taxa (map fst fm) False) ({}, lbls)"

subsection \<open>The statistics table\<close>

text \<open>
  \<open>_write_statistics_table\<close>: one row per key, in sorted order; a key whose list has
  not exactly one entry logs an error and calls \<open>sys.exit()\<close>.
\<close>

fun write_rows :: "fmeasures \<Rightarrow> string list \<Rightarrow> py_error + (string \<times> rat \<times> rat \<times> rat) list" where
  "write_rows fm [] = Inr []"
| "write_rows fm (taxon # taxa) =
     (case map_of fm taxon of
        None \<Rightarrow> Inl KeyError
      | Some data \<Rightarrow>
          if length data \<noteq> 1 then Inl SystemExit
          else case write_rows fm taxa of
                 Inl e \<Rightarrow> Inl e
               | Inr rows \<Rightarrow> Inr ((taxon, snd (hd data)) # rows))"

definition write_statistics_table :: "fmeasures \<Rightarrow> py_error + (string \<times> rat \<times> rat \<times> rat) list" where
  "write_statistics_table fm = write_rows fm (sort_taxa (map fst fm) False)"

subsection \<open>Resolving ambiguous placements\<close>

text \<open>
  Lines 386 to 390: the rank of the last token of a node's label, -1 for a node without
  taxon label; \<open>rank_prefixes.index\<close> raises ValueError on a token without rank prefix.
\<close>

definition cur_rank_index :: "labels \<Rightarrow> tree \<Rightarrow> py_error + int" where
  "cur_rank_index lbls cur_node =
     (case parse_label (lbls (nid cur_node)) of
        (_, cur_taxon, _) \<Rightarrow>
          if cur_taxon \<noteq> [] then
            (case index_of rank_prefixes (take 3 (last cur_taxon)) of
               None \<Rightarrow> Inl ValueError
             | Some k \<Rightarrow> Inr (int k))
          else Inr (- 1))"

text \<open>Line 401: the distance of a node's \<open>rel_dist\<close> from the rank's expected value.\<close>

definition rd_diff :: "(nat \<Rightarrow> rat) \<Rightarrow> rat \<Rightarrow> tree \<Rightarrow> rat" where
  "rd_diff rel_dist rd cur_node = \<bar>rd - rel_dist (nid cur_node)\<bar>"

text \<open>
  Lines 383 to 408: the scan of a taxon's candidates. The arguments are the label
  store, \<open>rel_dist\<close> of every node, \<open>rd\<close>, \<open>max_rd_diff\<close>, the taxon's rank, the position
  \<open>i\<close>, the candidates from \<open>i\<close> on, and the state \<open>closest_index\<close>, \<open>closest_dist\<close>
  (\<open>closest_node\<close> is the node at \<open>closest_index\<close>). \<open>break\<close> returns.
\<close>

fun scan_candidates ::
  "labels \<Rightarrow> (nat \<Rightarrow> rat) \<Rightarrow> rat \<Rightarrow> rat \<Rightarrow> nat \<Rightarrow> nat \<Rightarrow> candidate list \<Rightarrow> nat option \<Rightarrow> rat
     \<Rightarrow> py_error + nat option" where
  "scan_candidates lbls rel_dist rd max_rd_diff rank_index i [] closest_index closest_dist =
     Inr closest_index"
| "scan_candidates lbls rel_dist rd max_rd_diff rank_index i (d # ds) closest_index closest_dist =
     (case cur_rank_index lbls (fst d) of
        Inl e \<Rightarrow> Inl e
      | Inr k \<Rightarrow>
          if k > int rank_index then
            Inr (if closest_index = None then Some i else closest_index)
          else if rd_diff rel_dist rd (fst d) > max_rd_diff then
            scan_candidates lbls rel_dist rd max_rd_diff rank_index (i + 1) ds closest_index closest_dist
          else if rd_diff rel_dist rd (fst d) < closest_dist then
            scan_candidates lbls rel_dist rd max_rd_diff rank_index (i + 1) ds (Some i)
              (rd_diff rel_dist rd (fst d))
          else
            scan_candidates lbls rel_dist rd max_rd_diff rank_index (i + 1) ds closest_index closest_dist)"

text \<open>
  Lines 380 to 415: the index the resolver selects in a candidate list. With no index
  chosen by the scan it is \<open>len - 1\<close>, and reading an empty list there raises IndexError.
\<close>

definition select_index ::
  "labels \<Rightarrow> (nat \<Rightarrow> rat) \<Rightarrow> rat \<Rightarrow> rat \<Rightarrow> nat \<Rightarrow> candidate list \<Rightarrow> py_error + nat" where
  "select_index lbls rel_dist rd max_rd_diff rank_index data =
     (case scan_candidates lbls rel_dist rd max_rd_diff rank_index 0 data None (10 ^ 9) of
        Inl e \<Rightarrow> Inl e
      | Inr (Some i) \<Rightarrow> Inr i
      | Inr None \<Rightarrow> if data = [] then Inl IndexError else Inr (length data - 1))"

text \<open>
  Lines 370 to 428: the body of the resolver's loop. \<open>median_rank_rd\<close> is a dict from
  rank index to the expected relative divergence of the rank.
\<close>

definition resolve_taxon ::
  "(nat \<rightharpoonup> rat) \<Rightarrow> (nat \<Rightarrow> rat) \<Rightarrow> rat \<Rightarrow> string \<Rightarrow> fmeasures \<times> labels
     \<Rightarrow> py_error + fmeasures \<times> labels" where
  "resolve_taxon median_rank_rd rel_dist max_rd_diff taxon st =
     (case st of (fm, lbls) \<Rightarrow>
        case map_of fm taxon of
          None \<Rightarrow> Inl KeyError
        | Some data \<Rightarrow>
            if length data = 1 then Inr st
            else
              case index_of rank_prefixes (take 3 taxon) of
                None \<Rightarrow> Inl ValueError
              | Some rank_index \<Rightarrow>
                  case median_rank_rd rank_index of
                    None \<Rightarrow> Inl KeyError
                  | Some rd \<Rightarrow>
                      case select_index lbls rel_dist rd max_rd_diff rank_index data of
                        Inl e \<Rightarrow> Inl e
                      | Inr closest_index \<Rightarrow>
                          let closest_node = fst (data ! closest_index) in
                          case parse_label (lbls (nid closest_node)) of
                            (support, cur_taxon, aux_info) \<Rightarrow>
                              let taxa_str = (if cur_taxon = [] then [taxon]
                                              else sort_taxa (cur_taxon @ [taxon]) False)
                              in Inr (AList.update taxon [data ! closest_index] fm,
                                      lbls(nid closest_node :=
                                             create_label support taxa_str aux_info)))"

fun resolve_loop ::
  "(nat \<rightharpoonup> rat) \<Rightarrow> (nat \<Rightarrow> rat) \<Rightarrow> rat \<Rightarrow> string list \<Rightarrow> fmeasures \<times> labels
     \<Rightarrow> py_error + fmeasures \<times> labels" where
  "resolve_loop median_rank_rd rel_dist max_rd_diff [] st = Inr st"
| "resolve_loop median_rank_rd rel_dist max_rd_diff (taxon # taxa) st =
     (case resolve_taxon median_rank_rd rel_dist max_rd_diff taxon st of
        Inl e \<Rightarrow> Inl e
      | Inr st' \<Rightarrow> resolve_loop median_rank_rd rel_dist max_rd_diff taxa st')"

definition resolve_ambiguous_placements ::
  "fmeasures \<Rightarrow> labels \<Rightarrow> (nat \<rightharpoonup> rat) \<Rightarrow> (nat \<Rightarrow> rat) \<Rightarrow> rat \<Rightarrow> py_error + fmeasures \<times> labels" where
  "resolve_ambiguous_placements fm lbls median_rank_rd rel_dist max_rd_diff =
     resolve_loop median_rank_rd rel_dist max_rd_diff (sort_taxa (map fst fm) True) (fm, lbls)"

subsection \<open>Reading a leaf's taxa off the labelled tree\<close>

text \<open>
  \<open>_leaf_taxa\<close>, given the chain from the leaf to the seed node. The tokens of every
  labelled node are collected in reverse, the whole list is reversed, and the ranks
  after the last token's rank are filled with their placeholders. \<open>ordered_taxa[-1]\<close>
  raises IndexError on an empty list, and \<open>rank_prefixes.index\<close> raises ValueError on a
  token that starts with no rank prefix.
\<close>

definition leaf_taxa :: "labels \<Rightarrow> tree list \<Rightarrow> py_error + string list" where
  "leaf_taxa lbls chain =
     (let collected = concat (map (\<lambda>parent.
              case parse_label (lbls (nid parent)) of (_, taxon, _) \<Rightarrow> rev taxon) chain);
          ordered_taxa = rev collected
      in if ordered_taxa = [] then Inl IndexError
         else case index_of rank_prefixes (take 3 (last ordered_taxa)) of
                None \<Rightarrow> Inl ValueError
              | Some k \<Rightarrow> Inr (ordered_taxa @ drop (k + 1) rank_prefixes))"

text \<open>
  \<open>_write_taxonomy\<close>: one line per leaf, in leaf order; the first failing leaf ends the
  run. The result is the list of written lines (leaf label, taxa).
\<close>

fun write_lines :: "labels \<Rightarrow> tree list list \<Rightarrow> py_error + (string \<times> string list) list" where
  "write_lines lbls [] = Inr []"
| "write_lines lbls (chain # rest) =
     (case leaf_taxa lbls chain of
        Inl e \<Rightarrow> Inl e
      | Inr taxa \<Rightarrow>
          (case write_lines lbls rest of
             Inl e \<Rightarrow> Inl e
           | Inr out \<Rightarrow> Inr ((leaf_taxon (hd chain), taxa) # out)))"

definition write_taxonomy :: "tree \<Rightarrow> labels \<Rightarrow> py_error + (string \<times> string list) list" where
  "write_taxonomy t lbls = write_lines lbls (parent_chains [] t)"

subsection \<open>The run\<close>

text \<open>
  \<open>run\<close>, from the stripping of previous labels (line 467) to the writing of the
  taxonomy (line 526), on a tree already read. The estimate of \<open>_median_rank_rd\<close> comes
  from phylorank.outliers and phylorank.common, outside this file: it is a parameter
  that gives, for the tree, its labels, the placed taxa and the taxonomy, the dict
  \<open>median_rank_rd\<close> and the \<open>rel_dist\<close> of every node. The result is the label store,
  the dict of placements, the rows of the statistics table and the lines of the
  taxonomy file.
\<close>

definition trim_taxonomy :: "tree \<Rightarrow> taxonomy \<Rightarrow> taxonomy" where
  "trim_taxonomy t full_taxonomy =
     fold (\<lambda>leaf taxonomy.
        AList.update (leaf_taxon leaf)
          (case map_of full_taxonomy (leaf_taxon leaf) of
             None \<Rightarrow> rank_prefixes
           | Some taxa \<Rightarrow> taxa) taxonomy) (leaf_iter t) []"

text \<open>Lines 504 to 507: every list that has not one entry is cut to its last entry.\<close>

fun terminal_placements :: "fmeasures \<Rightarrow> py_error + fmeasures" where
  "terminal_placements [] = Inr []"
| "terminal_placements ((taxon, fmeasures) # rest) =
     (if length fmeasures \<noteq> 1 \<and> fmeasures = [] then Inl IndexError
      else case terminal_placements rest of
             Inl e \<Rightarrow> Inl e
           | Inr rest' \<Rightarrow>
               Inr ((taxon, if length fmeasures \<noteq> 1 then [last fmeasures] else fmeasures) # rest'))"

type_synonym estimator =
  "tree \<Rightarrow> labels \<Rightarrow> string set \<Rightarrow> taxonomy \<Rightarrow> (nat \<rightharpoonup> rat) \<times> (nat \<Rightarrow> rat)"

definition run ::
  "tree \<Rightarrow> labels \<Rightarrow> taxonomy \<Rightarrow> estimator \<Rightarrow> bool
     \<Rightarrow> py_error + labels \<times> fmeasures \<times> (string \<times> rat \<times> rat \<times> rat) list \<times> (string \<times> string list) list" where
  "run t lbls full_taxonomy median_rank_rd skip_rd_refine =
     (let lbls1 = strip_taxon_labels t lbls;
          taxonomy = trim_taxonomy t full_taxonomy
      in case fmeasure t taxonomy of
           Inl e \<Rightarrow> Inl e
         | Inr fm \<Rightarrow>
        (case assign_taxon_labels fm lbls1 of
           Inl e \<Rightarrow> Inl e
         | Inr (placed_taxon, lbls2) \<Rightarrow>
        (case (if \<not> skip_rd_refine then
                 (case median_rank_rd t lbls2 placed_taxon taxonomy of
                    (rank_rd, rel_dist) \<Rightarrow>
                      resolve_ambiguous_placements fm lbls2 rank_rd rel_dist (1 / 10))
               else
                 (case terminal_placements fm of
                    Inl e \<Rightarrow> Inl e
                  | Inr fm' \<Rightarrow>
                      (case assign_taxon_labels fm' (strip_taxon_labels t lbls2) of
                         Inl e \<Rightarrow> Inl e
                       | Inr (placed_taxon', lbls3) \<Rightarrow> Inr (fm', lbls3)))) of
           Inl e \<Rightarrow> Inl e
         | Inr (fm3, lbls3) \<Rightarrow>
        (case write_statistics_table fm3 of
           Inl e \<Rightarrow> Inl e
         | Inr rows \<Rightarrow>
        (case write_taxonomy t lbls3 of
           Inl e \<Rightarrow> Inl e
         | Inr lines \<Rightarrow> Inr (lbls3, fm3, rows, lines))))))"

subsection \<open>Example inputs\<close>

text \<open>
  A tree with the leaves a, b and c below the seed node; a and b belong to domain
  \<open>d__D\<close> and phylum \<open>p__P\<close>, c to domain \<open>d__E\<close>.
\<close>

definition example_tree :: tree where
  "example_tree = Node 0 [] [Node 1 ''a'' [], Node 2 ''b'' [], Node 3 ''c'' []]"

definition example_taxonomy :: taxonomy where
  "example_taxonomy =
     [(''a'', [''d__D'', ''p__P'', ''c__'', ''o__'', ''f__'', ''g__'', ''s__'']),
      (''b'', [''d__D'', ''p__P'', ''c__'', ''o__'', ''f__'', ''g__'', ''s__'']),
      (''c'', [''d__E'', ''p__'', ''c__'', ''o__'', ''f__'', ''g__'', ''s__''])]"


text \<open>
  A tree in which the leaves a and b form a clade below the seed node and the leaves c
  to i hang off the seed node; a to d belong to domain \<open>d__D\<close>, c and d to its phylum
  \<open>p__P\<close>, and e to i to domain \<open>d__E\<close>.
\<close>

definition clade_tree :: tree where
  "clade_tree =
     Node 0 [] [Node 1 [] [Node 2 ''a'' [], Node 3 ''b'' []],
                Node 4 ''c'' [], Node 5 ''d'' [], Node 6 ''e'' [], Node 7 ''f'' [],
                Node 8 ''g'' [], Node 9 ''h'' [], Node 10 ''i'' []]"

definition clade_taxonomy :: taxonomy where
  "clade_taxonomy =
     [(''a'', [''d__D'', ''p__'', ''c__'', ''o__'', ''f__'', ''g__'', ''s__'']),
      (''b'', [''d__D'', ''p__'', ''c__'', ''o__'', ''f__'', ''g__'', ''s__'']),
      (''c'', [''d__D'', ''p__P'', ''c__'', ''o__'', ''f__'', ''g__'', ''s__'']),
      (''d'', [''d__D'', ''p__P'', ''c__'', ''o__'', ''f__'', ''g__'', ''s__'']),
      (''e'', [''d__E'', ''p__'', ''c__'', ''o__'', ''f__'', ''g__'', ''s__'']),
      (''f'', [''d__E'', ''p__'', ''c__'', ''o__'', ''f__'', ''g__'', ''s__'']),
      (''g'', [''d__E'', ''p__'', ''c__'', ''o__'', ''f__'', ''g__'', ''s__'']),
      (''h'', [''d__E'', ''p__'', ''c__'', ''o__'', ''f__'', ''g__'', ''s__'']),
      (''i'', [''d__E'', ''p__'', ''c__'', ''o__'', ''f__'', ''g__'', ''s__''])]"

text \<open>A dict in which the leaves a and b are tied candidates for \<open>d__D\<close>.\<close>

definition tied_fmeasures :: fmeasures where
  "tied_fmeasures =
     [(''d__D'', [(Node 2 ''a'' [], 2 / 5, 1, 1 / 4), (Node 3 ''b'' [], 2 / 5, 1, 1 / 4)])]"

section \<open>Theorems\<close>

lemma leaf_taxa_unlabelled:
  assumes "\<forall>n \<in> set chain. lbl_taxa (lbls (nid n)) = []"
  shows "leaf_taxa lbls chain = Inl IndexError"
proof -
  have "concat (map (\<lambda>parent. rev (lbl_taxa (lbls (nid parent)))) chain) = []"
    using assms by (induction chain) auto
  then show ?thesis
    by (simp add: leaf_taxa_def parse_label_def)
qed

lemma write_lines_fails:
  "chain \<in> set chs \<Longrightarrow> isl (leaf_taxa lbls chain) \<Longrightarrow> isl (write_lines lbls chs)"
  by (induction chs) (auto split: sum.splits)

lemma parent_chains_nonempty: "c \<in> set (parent_chains anc t) \<Longrightarrow> c \<noteq> []"
proof (induction anc t arbitrary: c rule: parent_chains.induct)
  case (1 anc i l cs)
  then show ?case by (cases "cs = []") auto
qed

text \<open>
  C10. A leaf none of whose ancestors (nor itself) carries a taxon label: the rank-filling
  step of \<open>_leaf_taxa\<close> reads the last element of an empty list and raises IndexError,
  and \<open>_write_taxonomy\<close> fails; it writes no lines, so no all-unclassified record for
  that leaf either.
\<close>

theorem C10_unlabelled_leaf_fails:
  assumes "chain \<in> set (parent_chains [] t)"
    and "\<forall>n \<in> set chain. lbl_taxa (lbls (nid n)) = []"
  shows "leaf_taxa lbls chain = Inl IndexError \<and> isl (write_taxonomy t lbls)"
proof -
  have e: "leaf_taxa lbls chain = Inl IndexError"
    using assms(2) by (rule leaf_taxa_unlabelled)
  then have "isl (write_lines lbls (parent_chains [] t))"
    using assms(1) write_lines_fails [of chain "parent_chains [] t" lbls] by simp
  with e show ?thesis by (simp add: write_taxonomy_def)
qed

theorem C10_unlabelled_leaf_fails_witness:
  "[Node 1 ''A'' [], Node 0 [] [Node 1 ''A'' []]] \<in> set (parent_chains [] (Node 0 [] [Node 1 ''A'' []]))
   \<and> leaf_taxa (\<lambda>n. create_label None [] None) [Node 1 ''A'' [], Node 0 [] [Node 1 ''A'' []]]
       = Inl IndexError
   \<and> isl (write_taxonomy (Node 0 [] [Node 1 ''A'' []]) (\<lambda>n. create_label None [] None))"
proof -
  have c: "[Node 1 ''A'' [], Node 0 [] [Node 1 ''A'' []]]
             \<in> set (parent_chains [] (Node 0 [] [Node 1 ''A'' []]))"
    by simp
  have u: "\<forall>n \<in> set [Node 1 ''A'' [], Node 0 [] [Node 1 ''A'' []]].
             lbl_taxa ((\<lambda>n. create_label None [] None) (nid n)) = []"
    by (simp add: create_label_def)
  show ?thesis
    using c C10_unlabelled_leaf_fails [OF c u] by simp
qed


lemma fmeasure_of_bounds:
  assumes "0 < p" "p \<le> 1" "0 < r" "r \<le> 1"
  shows "0 < fmeasure_of p r \<and> fmeasure_of p r \<le> 1"
proof -
  have "p * r \<le> p * 1" using assms by (intro mult_left_mono) auto
  moreover have "p * r \<le> 1 * r" using assms by (intro mult_right_mono) auto
  ultimately have le: "2 * p * r \<le> p + r" by simp
  have pos: "0 < p + r" using assms by simp
  have "0 < 2 * p * r" using assms by simp
  then have "0 < fmeasure_of p r"
    unfolding fmeasure_of_def using pos by (rule divide_pos_pos)
  moreover have "fmeasure_of p r \<le> 1"
    unfolding fmeasure_of_def using pos le by (simp add: divide_le_eq)
  ultimately show ?thesis by simp
qed

lemma ratio_bounds:
  assumes "0 < a" "a \<le> b"
  shows "0 < (of_nat a / of_nat b :: rat) \<and> (of_nat a / of_nat b :: rat) \<le> 1"
  using assms by (simp add: divide_le_eq)

lemma taxa_count_le_num: "taxa_count taxonomy node r taxon \<le> num_leaves_with_taxa taxonomy node r"
proof -
  have "length (filter (\<lambda>leaf. r < length (taxa_of taxonomy leaf)
                 \<and> taxa_of taxonomy leaf ! r = taxon
                 \<and> taxon \<noteq> rank_prefixes ! r) xs)
        \<le> length (filter (\<lambda>leaf. r < length (taxa_of taxonomy leaf)
                 \<and> taxa_of taxonomy leaf ! r \<noteq> rank_prefixes ! r) xs)" for xs
    by (induction xs) auto
  then show ?thesis by (simp add: taxa_count_def num_leaves_with_taxa_def)
qed

lemma taxa_count_le_total:
  assumes "distinct (map leaf_taxon (leaf_iter node))"
  shows "taxa_count taxonomy node r taxon \<le> length (extant_taxa_for_rank taxonomy r taxon)"
proof -
  let ?P = "\<lambda>leaf. r < length (taxa_of taxonomy leaf)
                 \<and> taxa_of taxonomy leaf ! r = taxon
                 \<and> taxon \<noteq> rank_prefixes ! r"
  let ?L = "filter ?P (leaf_iter node)"
  let ?E = "map fst (filter (\<lambda>(taxon_id, taxa).
        taxa ! r \<noteq> rank_prefixes ! r \<and> taxa ! r = taxon) taxonomy)"
  have d: "distinct (map leaf_taxon ?L)"
    using assms by (rule distinct_map_filter)
  have sub: "set (map leaf_taxon ?L) \<subseteq> set ?E"
  proof
    fix x assume "x \<in> set (map leaf_taxon ?L)"
    then obtain leaf where l: "leaf \<in> set (leaf_iter node)" "?P leaf" "x = leaf_taxon leaf"
      by auto
    from l(2) obtain taxa where m: "map_of taxonomy (leaf_taxon leaf) = Some taxa"
      by (cases "map_of taxonomy (leaf_taxon leaf)") (auto simp: taxa_of_def)
    then have t: "taxa_of taxonomy leaf = taxa" by (simp add: taxa_of_def)
    from m have "(leaf_taxon leaf, taxa) \<in> set taxonomy" by (rule map_of_SomeD)
    with l t show "x \<in> set ?E" by force
  qed
  have "taxa_count taxonomy node r taxon = length (map leaf_taxon ?L)"
    by (simp add: taxa_count_def)
  also have "\<dots> = card (set (map leaf_taxon ?L))"
    using d by (simp only: distinct_card)
  also have "\<dots> \<le> card (set ?E)"
    using sub by (intro card_mono) auto
  also have "\<dots> = length (extant_taxa_for_rank taxonomy r taxon)"
    by (simp add: extant_taxa_for_rank_def length_remdups_card_conv)
  finally show ?thesis .
qed


text \<open>
  C2. Every node evaluated for a taxon is scored by precision = (subtree leaves carrying
  the taxon) / (subtree leaves carrying any named taxon at that rank), recall = (subtree
  leaves carrying the taxon) / (the taxon's leaf count in the taxonomy) and
  F = 2 precision recall / (precision + recall); a node where the taxon's count or the
  rank's count is zero gets no score and the search loop passes over it; the three values
  lie between 0 and 1. The leaves below the node have distinct taxon labels.
\<close>

theorem C2_score_formula_and_range:
  fixes a b total :: nat and precision recall :: rat
  assumes leaves: "distinct (map leaf_taxon (leaf_iter node))"
    and a: "a = taxa_count taxonomy node rank_index taxon"
    and b: "b = num_leaves_with_taxa taxonomy node rank_index"
    and total: "total = length (extant_taxa_for_rank taxonomy rank_index taxon)"
    and precision: "precision = of_nat a / of_nat b"
    and recall: "recall = of_nat a / of_nat total"
  shows "(if a = 0 \<or> b = 0
          then node_score taxonomy rank_index taxon total node = Inr None
             \<and> search_nodes taxonomy rank_index taxon total (node # nodes) cur fm
                 = search_nodes taxonomy rank_index taxon total nodes cur fm
          else node_score taxonomy rank_index taxon total node
                 = Inr (Some (node, 2 * precision * recall / (precision + recall), precision, recall))
             \<and> 0 \<le> precision \<and> precision \<le> 1 \<and> 0 \<le> recall \<and> recall \<le> 1
             \<and> 0 \<le> 2 * precision * recall / (precision + recall)
             \<and> 2 * precision * recall / (precision + recall) \<le> 1)"
proof (cases "a = 0 \<or> b = 0")
  case True
  then have "node_score taxonomy rank_index taxon total node = Inr None"
    using a b by (auto simp: node_score_def Let_def)
  then show ?thesis using True by simp
next
  case False
  then have a0: "0 < a" and b0: "0 < b" by auto
  have ab: "a \<le> b" unfolding a b by (rule taxa_count_le_num)
  have at: "a \<le> total" unfolding a total using leaves by (rule taxa_count_le_total)
  then have t0: "0 < total" using a0 by simp
  have p: "0 < precision \<and> precision \<le> 1"
    unfolding precision using a0 ab by (rule ratio_bounds)
  have r: "0 < recall \<and> recall \<le> 1"
    unfolding recall using a0 at by (rule ratio_bounds)
  have f: "0 < fmeasure_of precision recall \<and> fmeasure_of precision recall \<le> 1"
    using p r by (intro fmeasure_of_bounds) auto
  have s: "precision + recall \<noteq> 0" using p r by auto
  have "node_score taxonomy rank_index taxon total node
          = Inr (Some (node, fmeasure_of precision recall, precision, recall))"
    using a0 b0 t0 s unfolding node_score_def Let_def
    by (simp add: a [symmetric] b [symmetric] precision recall precision_of_def recall_of_def)
  then show ?thesis
    using False p r f by (simp add: fmeasure_of_def)
qed

theorem C2_score_formula_and_range_witness:
  "node_score
     [(''a'', [''d__D'', ''p__'', ''c__'', ''o__'', ''f__'', ''g__'', ''s__'']),
      (''b'', [''d__D'', ''p__'', ''c__'', ''o__'', ''f__'', ''g__'', ''s__'']),
      (''c'', [''d__E'', ''p__'', ''c__'', ''o__'', ''f__'', ''g__'', ''s__''])]
     0 ''d__D'' 2 (Node 0 [] [Node 1 ''a'' [], Node 2 ''b'' [], Node 3 ''c'' []])
   = Inr (Some (Node 0 [] [Node 1 ''a'' [], Node 2 ''b'' [], Node 3 ''c'' []], 4 / 5, 2 / 3, 1))"
proof -
  let ?tx = "[(''a'', [''d__D'', ''p__'', ''c__'', ''o__'', ''f__'', ''g__'', ''s__'']),
      (''b'', [''d__D'', ''p__'', ''c__'', ''o__'', ''f__'', ''g__'', ''s__'']),
      (''c'', [''d__E'', ''p__'', ''c__'', ''o__'', ''f__'', ''g__'', ''s__''])]"
  let ?t = "Node 0 [] [Node 1 ''a'' [], Node 2 ''b'' [], Node 3 ''c'' []]"
  have leaves: "distinct (map leaf_taxon (leaf_iter ?t))" by simp
  have a: "(2::nat) = taxa_count ?tx ?t 0 ''d__D''" by code_simp
  have b: "(3::nat) = num_leaves_with_taxa ?tx ?t 0" by code_simp
  have total: "(2::nat) = length (extant_taxa_for_rank ?tx 0 ''d__D'')" by code_simp
  have p: "(2 / 3 :: rat) = of_nat 2 / of_nat 3" by simp
  have r: "(1 :: rat) = of_nat 2 / of_nat 2" by simp
  show ?thesis
    using C2_score_formula_and_range [OF leaves a b total p r, of "[]" 0 "[]"] by simp
qed


lemma taxa_count_pos_total:
  assumes "taxa_count taxonomy node r taxon \<noteq> 0"
  shows "extant_taxa_for_rank taxonomy r taxon \<noteq> []"
proof -
  from assms obtain leaf where l: "r < length (taxa_of taxonomy leaf)"
      "taxa_of taxonomy leaf ! r = taxon" "taxon \<noteq> rank_prefixes ! r"
    unfolding taxa_count_def by (auto simp: filter_empty_conv)
  from l(1) obtain taxa where m: "map_of taxonomy (leaf_taxon leaf) = Some taxa"
    by (cases "map_of taxonomy (leaf_taxon leaf)") (auto simp: taxa_of_def)
  then have t: "taxa_of taxonomy leaf = taxa" by (simp add: taxa_of_def)
  from m have "(leaf_taxon leaf, taxa) \<in> set taxonomy" by (rule map_of_SomeD)
  with l t have "leaf_taxon leaf \<in> set (extant_taxa_for_rank taxonomy r taxon)"
    unfolding extant_taxa_for_rank_def by force
  then show ?thesis by auto
qed

lemma node_score_cases:
  "node_score taxonomy r taxon (length (extant_taxa_for_rank taxonomy r taxon)) n = Inr None
   \<or> (\<exists>F p q. node_score taxonomy r taxon (length (extant_taxa_for_rank taxonomy r taxon)) n
          = Inr (Some (n, F, p, q)) \<and> 0 < F)"
proof (cases "taxa_count taxonomy n r taxon \<noteq> 0 \<and> num_leaves_with_taxa taxonomy n r \<noteq> 0")
  case False
  then show ?thesis by (auto simp: node_score_def Let_def)
next
  case True
  let ?a = "taxa_count taxonomy n r taxon"
  let ?b = "num_leaves_with_taxa taxonomy n r"
  let ?t = "length (extant_taxa_for_rank taxonomy r taxon)"
  have t: "?t \<noteq> 0" using True taxa_count_pos_total by auto
  have p: "0 < precision_of ?a ?b" using True by (simp add: precision_of_def)
  have q: "0 < recall_of ?a ?t" using True t by (simp add: recall_of_def)
  have s: "precision_of ?a ?b + recall_of ?a ?t \<noteq> 0" using p q by simp
  have f: "0 < fmeasure_of (precision_of ?a ?b) (recall_of ?a ?t)"
    unfolding fmeasure_of_def using p q by (intro divide_pos_pos) auto
  have "node_score taxonomy r taxon ?t n
          = Inr (Some (n, fmeasure_of (precision_of ?a ?b) (recall_of ?a ?t),
                 precision_of ?a ?b, recall_of ?a ?t))"
    using True t s by (simp add: node_score_def Let_def)
  with f show ?thesis by blast
qed

lemma concat_scored_nonempty:
  assumes "n \<in> set nodes" "sc n = Inr (Some (n, m, p, q))"
  shows "concat (map (\<lambda>n. case sc n of
                         Inr (Some c) \<Rightarrow> if fst (snd c) = m then [c] else []
                       | _ \<Rightarrow> []) nodes) \<noteq> []"
  using assms by (induction nodes) auto

lemma search_nodes_spec:
  fixes taxonomy :: taxonomy and r :: nat and taxon :: string and total_taxa :: nat
    and sc :: "tree \<Rightarrow> py_error + candidate option"
  defines "sc \<equiv> node_score taxonomy r taxon total_taxa"
  assumes ok: "\<forall>n \<in> set nodes. sc n = Inr None \<or> (\<exists>F p q. sc n = Inr (Some (n, F, p, q)) \<and> 0 < F)"
    and st: "(cur = - 1 \<and> acc = []) \<or>
             (0 < cur \<and> acc \<noteq> [] \<and> map_of fm taxon = Some acc \<and> (\<forall>c \<in> set acc. fst (snd c) = cur))"
  shows "\<exists>res m. search_nodes taxonomy r taxon total_taxa nodes cur fm
                  = Inr (if res = [] then fm else AList.update taxon res fm)
           \<and> cur \<le> m
           \<and> (\<forall>n \<in> set nodes. \<forall>F p q. sc n = Inr (Some (n, F, p, q)) \<longrightarrow> F \<le> m)
           \<and> (m = cur \<or> (\<exists>n \<in> set nodes. \<exists>p q. sc n = Inr (Some (n, m, p, q))))
           \<and> res = (if m = cur then acc else [])
                 @ concat (map (\<lambda>n. case sc n of
                       Inr (Some c) \<Rightarrow> if fst (snd c) = m then [c] else []
                     | _ \<Rightarrow> []) nodes)"
  using ok st
proof (induction nodes arbitrary: cur fm acc)
  case Nil
  show ?case
  proof (intro exI [of _ acc] exI [of _ cur] conjI)
    show "search_nodes taxonomy r taxon total_taxa [] cur fm
            = Inr (if acc = [] then fm else AList.update taxon acc fm)"
      using Nil(2) by (auto simp: AList.update_triv)
  qed auto
next
  case (Cons node nodes)
  have ok': "\<forall>n \<in> set nodes. sc n = Inr None \<or> (\<exists>F p q. sc n = Inr (Some (n, F, p, q)) \<and> 0 < F)"
    using Cons.prems(1) by simp
  from Cons.prems(1) consider (none) "sc node = Inr None"
    | (some) F p q where "sc node = Inr (Some (node, F, p, q))" "0 < F"
    by auto
  then show ?case
  proof cases
    case none
    from Cons.IH [OF ok' Cons.prems(2)] obtain res m where
      h: "search_nodes taxonomy r taxon total_taxa nodes cur fm
            = Inr (if res = [] then fm else AList.update taxon res fm)"
         "cur \<le> m"
         "\<forall>n \<in> set nodes. \<forall>F p q. sc n = Inr (Some (n, F, p, q)) \<longrightarrow> F \<le> m"
         "m = cur \<or> (\<exists>n \<in> set nodes. \<exists>p q. sc n = Inr (Some (n, m, p, q)))"
         "res = (if m = cur then acc else [])
                 @ concat (map (\<lambda>n. case sc n of
                       Inr (Some c) \<Rightarrow> if fst (snd c) = m then [c] else []
                     | _ \<Rightarrow> []) nodes)"
      by blast
    show ?thesis
    proof (intro exI [of _ res] exI [of _ m] conjI)
      show "search_nodes taxonomy r taxon total_taxa (node # nodes) cur fm
              = Inr (if res = [] then fm else AList.update taxon res fm)"
        using none h(1) by (simp add: sc_def)
      show "cur \<le> m" by (rule h(2))
      show "\<forall>n \<in> set (node # nodes). \<forall>F p q. sc n = Inr (Some (n, F, p, q)) \<longrightarrow> F \<le> m"
        using none h(3) by simp
      show "m = cur \<or> (\<exists>n \<in> set (node # nodes). \<exists>p q. sc n = Inr (Some (n, m, p, q)))"
        using h(4) by auto
      show "res = (if m = cur then acc else [])
                 @ concat (map (\<lambda>n. case sc n of
                       Inr (Some c) \<Rightarrow> if fst (snd c) = m then [c] else []
                     | _ \<Rightarrow> []) (node # nodes))"
        using none h(5) by simp
    qed
  next
    case some
    let ?c = "(node, F, p, q)"
    consider (gt) "cur < F" | (eq) "F = cur" | (lt) "F < cur" by linarith
    then show ?thesis
    proof cases
      case gt
      have st': "(F = - 1 \<and> [?c] = []) \<or>
             (0 < F \<and> [?c] \<noteq> [] \<and> map_of (AList.update taxon [?c] fm) taxon = Some [?c]
               \<and> (\<forall>c \<in> set [?c]. fst (snd c) = F))"
        using some(2) by (simp add: update_Some_unfold)
      from Cons.IH [OF ok' st'] obtain res m where
        h: "search_nodes taxonomy r taxon total_taxa nodes F (AList.update taxon [?c] fm)
              = Inr (if res = [] then AList.update taxon [?c] fm
                     else AList.update taxon res (AList.update taxon [?c] fm))"
           "F \<le> m"
           "\<forall>n \<in> set nodes. \<forall>F p q. sc n = Inr (Some (n, F, p, q)) \<longrightarrow> F \<le> m"
           "m = F \<or> (\<exists>n \<in> set nodes. \<exists>p q. sc n = Inr (Some (n, m, p, q)))"
           "res = (if m = F then [?c] else [])
                   @ concat (map (\<lambda>n. case sc n of
                         Inr (Some c) \<Rightarrow> if fst (snd c) = m then [c] else []
                       | _ \<Rightarrow> []) nodes)"
        by blast
      have ne: "res \<noteq> []"
      proof (cases "m = F")
        case True
        then show ?thesis using h(5) by simp
      next
        case False
        with h(4) obtain n p' q' where n: "n \<in> set nodes" "sc n = Inr (Some (n, m, p', q'))"
          by blast
        then have "concat (map (\<lambda>n. case sc n of
                         Inr (Some c) \<Rightarrow> if fst (snd c) = m then [c] else []
                       | _ \<Rightarrow> []) nodes) \<noteq> []"
          by (rule concat_scored_nonempty)
        then show ?thesis using h(5) by simp
      qed
      show ?thesis
      proof (intro exI [of _ res] exI [of _ m] conjI)
        show "search_nodes taxonomy r taxon total_taxa (node # nodes) cur fm
                = Inr (if res = [] then fm else AList.update taxon res fm)"
          using some(1) gt h(1) ne by (simp add: sc_def)
        show "cur \<le> m" using gt h(2) by simp
        show "\<forall>n \<in> set (node # nodes). \<forall>F p q. sc n = Inr (Some (n, F, p, q)) \<longrightarrow> F \<le> m"
          using some(1) h(2, 3) by auto
        show "m = cur \<or> (\<exists>n \<in> set (node # nodes). \<exists>p q. sc n = Inr (Some (n, m, p, q)))"
          using some(1) h(4) by auto
        show "res = (if m = cur then acc else [])
                   @ concat (map (\<lambda>n. case sc n of
                         Inr (Some c) \<Rightarrow> if fst (snd c) = m then [c] else []
                       | _ \<Rightarrow> []) (node # nodes))"
          using some(1) gt h(2, 5) by auto
      qed
    next
      case eq
      with some(2) Cons.prems(2) have a: "acc \<noteq> []" "map_of fm taxon = Some acc"
          "\<forall>c \<in> set acc. fst (snd c) = cur" "0 < cur"
        by auto
      have st': "(cur = - 1 \<and> acc @ [?c] = []) \<or>
             (0 < cur \<and> acc @ [?c] \<noteq> []
               \<and> map_of (AList.update taxon (acc @ [?c]) fm) taxon = Some (acc @ [?c])
               \<and> (\<forall>c \<in> set (acc @ [?c]). fst (snd c) = cur))"
        using a eq by (simp add: update_Some_unfold)
      from Cons.IH [OF ok' st'] obtain res m where
        h: "search_nodes taxonomy r taxon total_taxa nodes cur (AList.update taxon (acc @ [?c]) fm)
              = Inr (if res = [] then AList.update taxon (acc @ [?c]) fm
                     else AList.update taxon res (AList.update taxon (acc @ [?c]) fm))"
           "cur \<le> m"
           "\<forall>n \<in> set nodes. \<forall>F p q. sc n = Inr (Some (n, F, p, q)) \<longrightarrow> F \<le> m"
           "m = cur \<or> (\<exists>n \<in> set nodes. \<exists>p q. sc n = Inr (Some (n, m, p, q)))"
           "res = (if m = cur then acc @ [?c] else [])
                   @ concat (map (\<lambda>n. case sc n of
                         Inr (Some c) \<Rightarrow> if fst (snd c) = m then [c] else []
                       | _ \<Rightarrow> []) nodes)"
        by blast
      have ne: "res \<noteq> []"
      proof (cases "m = cur")
        case True
        then show ?thesis using h(5) by simp
      next
        case False
        with h(4) obtain n p' q' where n: "n \<in> set nodes" "sc n = Inr (Some (n, m, p', q'))"
          by blast
        then have "concat (map (\<lambda>n. case sc n of
                         Inr (Some c) \<Rightarrow> if fst (snd c) = m then [c] else []
                       | _ \<Rightarrow> []) nodes) \<noteq> []"
          by (rule concat_scored_nonempty)
        then show ?thesis using h(5) by simp
      qed
      show ?thesis
      proof (intro exI [of _ res] exI [of _ m] conjI)
        show "search_nodes taxonomy r taxon total_taxa (node # nodes) cur fm
                = Inr (if res = [] then fm else AList.update taxon res fm)"
          using some(1) eq a(2) h(1) ne by (simp add: sc_def)
        show "cur \<le> m" by (rule h(2))
        show "\<forall>n \<in> set (node # nodes). \<forall>F p q. sc n = Inr (Some (n, F, p, q)) \<longrightarrow> F \<le> m"
          using some(1) eq h(2, 3) by auto
        show "m = cur \<or> (\<exists>n \<in> set (node # nodes). \<exists>p q. sc n = Inr (Some (n, m, p, q)))"
          using h(4) by auto
        show "res = (if m = cur then acc else [])
                   @ concat (map (\<lambda>n. case sc n of
                         Inr (Some c) \<Rightarrow> if fst (snd c) = m then [c] else []
                       | _ \<Rightarrow> []) (node # nodes))"
          using some(1) eq h(5) by auto
      qed
    next
      case lt
      from Cons.IH [OF ok' Cons.prems(2)] obtain res m where
        h: "search_nodes taxonomy r taxon total_taxa nodes cur fm
              = Inr (if res = [] then fm else AList.update taxon res fm)"
           "cur \<le> m"
           "\<forall>n \<in> set nodes. \<forall>F p q. sc n = Inr (Some (n, F, p, q)) \<longrightarrow> F \<le> m"
           "m = cur \<or> (\<exists>n \<in> set nodes. \<exists>p q. sc n = Inr (Some (n, m, p, q)))"
           "res = (if m = cur then acc else [])
                   @ concat (map (\<lambda>n. case sc n of
                         Inr (Some c) \<Rightarrow> if fst (snd c) = m then [c] else []
                       | _ \<Rightarrow> []) nodes)"
        by blast
      show ?thesis
      proof (intro exI [of _ res] exI [of _ m] conjI)
        show "search_nodes taxonomy r taxon total_taxa (node # nodes) cur fm
                = Inr (if res = [] then fm else AList.update taxon res fm)"
          using some(1) lt h(1) by (simp add: sc_def)
        show "cur \<le> m" by (rule h(2))
        show "\<forall>n \<in> set (node # nodes). \<forall>F p q. sc n = Inr (Some (n, F, p, q)) \<longrightarrow> F \<le> m"
          using some(1) lt h(2, 3) by auto
        show "m = cur \<or> (\<exists>n \<in> set (node # nodes). \<exists>p q. sc n = Inr (Some (n, m, p, q)))"
          using h(4) by auto
        show "res = (if m = cur then acc else [])
                   @ concat (map (\<lambda>n. case sc n of
                         Inr (Some c) \<Rightarrow> if fst (snd c) = m then [c] else []
                       | _ \<Rightarrow> []) (node # nodes))"
          using some(1) lt h(2, 5) by auto
      qed
    qed
  qed
qed


lemma scored_fst:
  assumes "\<forall>n \<in> set nodes. sc n = Inr None \<or> (\<exists>F p q. sc n = Inr (Some (n, F, p, q)) \<and> (0::rat) < F)"
  shows "map fst (concat (map (\<lambda>n. case sc n of
                         Inr (Some c) \<Rightarrow> if fst (snd c) = m then [c] else []
                       | _ \<Rightarrow> []) nodes))
         = filter (\<lambda>n. \<exists>p q. sc n = Inr (Some (n, m, p, q))) nodes"
  using assms
proof (induction nodes)
  case Nil
  show ?case by simp
next
  case (Cons node nodes)
  from Cons.prems consider (none) "sc node = Inr None"
    | (some) F p q where "sc node = Inr (Some (node, F, p, q))"
    by auto
  then show ?case
  proof cases
    case none
    with Cons show ?thesis by simp
  next
    case some
    with Cons show ?thesis by auto
  qed
qed

lemma scored_sound:
  assumes "\<forall>n \<in> set nodes. sc n = Inr None \<or> (\<exists>F p q. sc n = Inr (Some (n, F, p, q)) \<and> (0::rat) < F)"
    and "c \<in> set (concat (map (\<lambda>n. case sc n of
                         Inr (Some c) \<Rightarrow> if fst (snd c) = m then [c] else []
                       | _ \<Rightarrow> []) nodes))"
  shows "sc (fst c) = Inr (Some c)"
proof -
  from assms(2) obtain n where n: "n \<in> set nodes"
      "c \<in> set (case sc n of Inr (Some c) \<Rightarrow> if fst (snd c) = m then [c] else [] | _ \<Rightarrow> [])"
    by auto
  from assms(1) n(1) consider "sc n = Inr None"
    | F p q where "sc n = Inr (Some (n, F, p, q))"
    by auto
  then show ?thesis
  proof cases
    case 1
    with n(2) show ?thesis by simp
  next
    case 2
    with n(2) show ?thesis by (auto split: if_splits)
  qed
qed

lemma process_taxon_spec:
  fixes total_taxa :: nat
  assumes root: "taxon_parent_node t taxonomy fm rank_index taxon = Inr (Some search_root)"
    and total: "total_taxa = length (extant_taxa_for_rank taxonomy rank_index taxon)"
  shows "\<exists>cands best.
       process_taxon t taxonomy rank_index taxon fm
         = Inr (if cands = [] then fm else AList.update taxon cands fm)
     \<and> map fst cands
         = filter (\<lambda>n. \<exists>p q. node_score taxonomy rank_index taxon total_taxa n
                                 = Inr (Some (n, best, p, q)))
             (preorder_iter search_root)
     \<and> (\<forall>c \<in> set cands. node_score taxonomy rank_index taxon total_taxa (fst c) = Inr (Some c))
     \<and> (\<forall>n \<in> set (preorder_iter search_root). \<forall>F p q.
           node_score taxonomy rank_index taxon total_taxa n = Inr (Some (n, F, p, q)) \<longrightarrow> F \<le> best)
     \<and> (cands = [] \<longrightarrow> (\<forall>n \<in> set (preorder_iter search_root).
           node_score taxonomy rank_index taxon total_taxa n = Inr None))"
proof -
  let ?sc = "node_score taxonomy rank_index taxon total_taxa"
  let ?nodes = "preorder_iter search_root"
  have ok: "\<forall>n \<in> set ?nodes. ?sc n = Inr None \<or> (\<exists>F p q. ?sc n = Inr (Some (n, F, p, q)) \<and> 0 < F)"
    unfolding total using node_score_cases by blast
  have st: "((- 1 :: rat) = - 1 \<and> ([] :: candidate list) = []) \<or>
             (0 < (- 1 :: rat) \<and> ([] :: candidate list) \<noteq> [] \<and> map_of fm taxon = Some []
               \<and> (\<forall>c \<in> set ([] :: candidate list). fst (snd c) = - 1))"
    by simp
  from search_nodes_spec [OF ok st] obtain res m where
    h: "search_nodes taxonomy rank_index taxon total_taxa ?nodes (- 1) fm
          = Inr (if res = [] then fm else AList.update taxon res fm)"
       "- 1 \<le> m"
       "\<forall>n \<in> set ?nodes. \<forall>F p q. ?sc n = Inr (Some (n, F, p, q)) \<longrightarrow> F \<le> m"
       "m = - 1 \<or> (\<exists>n \<in> set ?nodes. \<exists>p q. ?sc n = Inr (Some (n, m, p, q)))"
       "res = (if m = - 1 then [] else [])
               @ concat (map (\<lambda>n. case ?sc n of
                     Inr (Some c) \<Rightarrow> if fst (snd c) = m then [c] else []
                   | _ \<Rightarrow> []) ?nodes)"
    by blast
  have res: "res = concat (map (\<lambda>n. case ?sc n of
                     Inr (Some c) \<Rightarrow> if fst (snd c) = m then [c] else []
                   | _ \<Rightarrow> []) ?nodes)"
    using h(5) by simp
  have 1: "process_taxon t taxonomy rank_index taxon fm
             = Inr (if res = [] then fm else AList.update taxon res fm)"
    using root h(1) by (simp add: process_taxon_def total)
  have 2: "map fst res = filter (\<lambda>n. \<exists>p q. ?sc n = Inr (Some (n, m, p, q))) ?nodes"
    unfolding res using ok by (rule scored_fst)
  have 3: "\<forall>c \<in> set res. ?sc (fst c) = Inr (Some c)"
    unfolding res using ok scored_sound [of ?nodes ?sc _ m] by blast
  have 5: "res = [] \<longrightarrow> (\<forall>n \<in> set ?nodes. ?sc n = Inr None)"
  proof (intro impI ballI)
    fix n assume e: "res = []" and n: "n \<in> set ?nodes"
    have "m = - 1"
    proof (rule ccontr)
      assume "m \<noteq> - 1"
      with h(4) obtain n' p q where "n' \<in> set ?nodes" "?sc n' = Inr (Some (n', m, p, q))"
        by blast
      then have "concat (map (\<lambda>n. case ?sc n of
                     Inr (Some c) \<Rightarrow> if fst (snd c) = m then [c] else []
                   | _ \<Rightarrow> []) ?nodes) \<noteq> []"
        by (rule concat_scored_nonempty)
      with e res show False by simp
    qed
    with h(3) n ok show "?sc n = Inr None" by fastforce
  qed
  from 1 2 3 h(3) 5 show ?thesis by blast
qed




lemma set_update_subset: "set (AList.update k v al) \<subseteq> insert (k, v) (set al)"
  by (induction al) auto

lemma root_node_first: "hd (preorder_iter n) = n \<and> n \<in> set (preorder_iter n)"
  by (cases n) simp

lemma named_lineage_record:
  assumes "taxon \<in> set (named_lineages_at_rank taxonomy i)"
  shows "\<exists>taxon_id taxa. (taxon_id, taxa) \<in> set taxonomy \<and> taxa ! i = taxon
           \<and> taxon \<noteq> rank_prefixes ! i"
  using assms unfolding named_lineages_at_rank_def by auto

lemma count_list_pos: "x \<in> set xs \<Longrightarrow> 0 < count_list xs x"
  by (induction xs) auto

lemma sum_list_pos_member:
  fixes f :: "'a \<Rightarrow> nat"
  shows "x \<in> set xs \<Longrightarrow> 0 < f x \<Longrightarrow> 0 < sum_list (map f xs)"
  by (induction xs) auto

lemma taxon_in_tree:
  assumes keys: "distinct (map fst taxonomy)"
    and recs: "\<forall>(taxon_id, taxa) \<in> set taxonomy. length taxa = length rank_prefixes"
    and leaves: "fst ` set taxonomy \<subseteq> leaf_taxon ` set (leaf_iter t)"
    and rank: "rank_index < length rank_labels"
    and taxon: "taxon \<in> set (named_lineages_at_rank taxonomy rank_index)"
  shows "0 < taxa_count taxonomy t rank_index taxon \<and> 0 < taxa_in_tree taxonomy t taxon"
proof -
  from taxon obtain taxon_id taxa where r: "(taxon_id, taxa) \<in> set taxonomy"
      "taxa ! rank_index = taxon" "taxon \<noteq> rank_prefixes ! rank_index"
    using named_lineage_record by blast
  from r(1) leaves obtain leaf where l: "leaf \<in> set (leaf_iter t)" "leaf_taxon leaf = taxon_id"
    by force
  from keys r(1) have "map_of taxonomy taxon_id = Some taxa" by (rule map_of_is_SomeI)
  with l have t: "taxa_of taxonomy leaf = taxa" by (simp add: taxa_of_def)
  from recs r(1) rank have len: "rank_index < length taxa"
    by (auto simp: rank_prefixes_def rank_labels_def)
  have "leaf \<in> set (filter (\<lambda>leaf. rank_index < length (taxa_of taxonomy leaf)
                 \<and> taxa_of taxonomy leaf ! rank_index = taxon
                 \<and> taxon \<noteq> rank_prefixes ! rank_index) (leaf_iter t))"
    using l(1) t len r(2, 3) by simp
  then have 1: "0 < taxa_count taxonomy t rank_index taxon"
    unfolding taxa_count_def by (metis length_pos_if_in_set)
  have "taxon \<in> set taxa" using len r(2) by (metis nth_mem)
  then have "0 < count_list (taxa_of taxonomy leaf) taxon"
    unfolding t by (rule count_list_pos)
  with l(1) have 2: "0 < taxa_in_tree taxonomy t taxon"
    unfolding taxa_in_tree_def by (intro sum_list_pos_member)
  from 1 2 show ?thesis by simp
qed

lemma search_root_holds_taxon:
  assumes t: "0 < taxa_count taxonomy t rank_index taxon" "0 < taxa_in_tree taxonomy t taxon"
    and root: "taxon_parent_node t taxonomy fm rank_index taxon = Inr (Some search_root)"
  shows "0 < taxa_count taxonomy search_root rank_index taxon"
proof -
  have half: "0 < taxa_count taxonomy node rank_index taxon"
    if "\<not> of_nat (taxa_count taxonomy node rank_index taxon)
              < (1 / 2 :: rat) * of_nat (taxa_in_tree taxonomy t taxon)" for node
  proof -
    have "(0 :: rat) < (1 / 2) * of_nat (taxa_in_tree taxonomy t taxon)" using t(2) by simp
    with that have "(0 :: rat) < of_nat (taxa_count taxonomy node rank_index taxon)" by linarith
    then show ?thesis by simp
  qed
  from root show ?thesis
    unfolding taxon_parent_node_def Let_def
    using t(1) half
    by (auto split: if_splits option.splits sum.splits)
qed

lemma process_taxon_nonempty:
  assumes "0 < taxa_count taxonomy search_root rank_index taxon"
    and root: "taxon_parent_node t taxonomy fm rank_index taxon = Inr (Some search_root)"
  shows "\<exists>cands. process_taxon t taxonomy rank_index taxon fm = Inr (AList.update taxon cands fm)
           \<and> cands \<noteq> []"
proof -
  let ?total = "length (extant_taxa_for_rank taxonomy rank_index taxon)"
  from process_taxon_spec [OF root refl] obtain cands where
    c: "process_taxon t taxonomy rank_index taxon fm
          = Inr (if cands = [] then fm else AList.update taxon cands fm)"
       "cands = [] \<longrightarrow> (\<forall>n \<in> set (preorder_iter search_root).
           node_score taxonomy rank_index taxon ?total n = Inr None)"
    by blast
  have a: "taxa_count taxonomy search_root rank_index taxon \<noteq> 0" using assms(1) by simp
  then have b: "num_leaves_with_taxa taxonomy search_root rank_index \<noteq> 0"
    using taxa_count_le_num [of taxonomy search_root rank_index taxon] by simp
  have "node_score taxonomy rank_index taxon ?total search_root \<noteq> Inr None"
    using a b by (simp add: node_score_def Let_def)
  then have "cands \<noteq> []"
    using c(2) root_node_first [of search_root] by blast
  with c(1) show ?thesis by auto
qed

lemma process_taxon_keeps_nonempty:
  assumes "process_taxon t taxonomy rank_index taxon fm = Inr fm'"
    and "\<forall>(k, c) \<in> set fm. c \<noteq> []"
  shows "\<forall>(k, c) \<in> set fm'. c \<noteq> []"
proof (cases "taxon_parent_node t taxonomy fm rank_index taxon")
  case (Inl e)
  with assms(1) show ?thesis by (simp add: process_taxon_def)
next
  case (Inr ro)
  show ?thesis
  proof (cases ro)
    case None
    with Inr assms show ?thesis by (simp add: process_taxon_def)
  next
    case (Some search_root)
    with Inr have root: "taxon_parent_node t taxonomy fm rank_index taxon = Inr (Some search_root)"
      by simp
    from process_taxon_spec [OF root refl] obtain cands where
      "process_taxon t taxonomy rank_index taxon fm
          = Inr (if cands = [] then fm else AList.update taxon cands fm)"
      by blast
    with assms(1) have "fm' = (if cands = [] then fm else AList.update taxon cands fm)" by simp
    then show ?thesis
      using assms(2) set_update_subset [of taxon cands fm] by (auto split: if_splits)
  qed
qed

lemma process_taxa_keeps_nonempty:
  assumes "process_taxa t taxonomy rank_index taxa fm = Inr fm'"
    and "\<forall>(k, c) \<in> set fm. c \<noteq> []"
  shows "\<forall>(k, c) \<in> set fm'. c \<noteq> []"
  using assms
proof (induction taxa arbitrary: fm)
  case Nil
  then show ?case by simp
next
  case (Cons taxon taxa)
  from Cons.prems(1) obtain fm1 where
    1: "process_taxon t taxonomy rank_index taxon fm = Inr fm1"
       "process_taxa t taxonomy rank_index taxa fm1 = Inr fm'"
    by (auto split: sum.splits)
  from 1(1) Cons.prems(2) have "\<forall>(k, c) \<in> set fm1. c \<noteq> []"
    by (rule process_taxon_keeps_nonempty)
  with 1(2) show ?case by (rule Cons.IH)
qed

lemma process_ranks_keeps_nonempty:
  assumes "process_ranks t taxonomy ranks fm = Inr fm'"
    and "\<forall>(k, c) \<in> set fm. c \<noteq> []"
  shows "\<forall>(k, c) \<in> set fm'. c \<noteq> []"
  using assms
proof (induction ranks arbitrary: fm)
  case Nil
  then show ?case by simp
next
  case (Cons rank_index ranks)
  from Cons.prems(1) obtain fm1 where
    1: "process_taxa t taxonomy rank_index (named_lineages_at_rank taxonomy rank_index) fm = Inr fm1"
       "process_ranks t taxonomy ranks fm1 = Inr fm'"
    by (auto split: sum.splits)
  from 1(1) Cons.prems(2) have "\<forall>(k, c) \<in> set fm1. c \<noteq> []"
    by (rule process_taxa_keeps_nonempty)
  with 1(2) show ?case by (rule Cons.IH)
qed

lemma fmeasure_nonempty:
  assumes "fmeasure t taxonomy = Inr fm"
  shows "\<forall>(k, c) \<in> set fm. c \<noteq> []"
proof -
  from assms have "process_ranks t taxonomy [0..<length rank_labels] [] = Inr fm"
    by (auto simp: fmeasure_def split: if_splits)
  then show ?thesis by (rule process_ranks_keeps_nonempty) simp
qed

text \<open>
  C9. A taxon that the search processes ends with a non-empty candidate list. With a
  taxonomy whose keys are leaves of the tree and whose records have one entry per
  rank, the search root chosen for a taxon of a rank (after the half-count test) has at
  least one leaf carrying the taxon below it, and the search stores a list of at least
  one candidate. Every list in the dict that \<open>_fmeasure\<close> returns has at least one entry.
\<close>

theorem C9_processed_taxon_has_candidates:
  assumes keys: "distinct (map fst taxonomy)"
    and recs: "\<forall>(taxon_id, taxa) \<in> set taxonomy. length taxa = length rank_prefixes"
    and leaves: "fst ` set taxonomy \<subseteq> leaf_taxon ` set (leaf_iter t)"
    and rank: "rank_index < length rank_labels"
    and taxon: "taxon \<in> set (named_lineages_at_rank taxonomy rank_index)"
    and root: "taxon_parent_node t taxonomy fm rank_index taxon = Inr (Some search_root)"
  shows "0 < taxa_count taxonomy search_root rank_index taxon
       \<and> (\<exists>cands. process_taxon t taxonomy rank_index taxon fm = Inr (AList.update taxon cands fm)
             \<and> 1 \<le> length cands)
       \<and> (\<forall>fm'. fmeasure t taxonomy = Inr fm' \<longrightarrow> (\<forall>(k, cands) \<in> set fm'. 1 \<le> length cands))"
proof -
  have "0 < taxa_count taxonomy t rank_index taxon \<and> 0 < taxa_in_tree taxonomy t taxon"
    using keys recs leaves rank taxon by (rule taxon_in_tree)
  then have 1: "0 < taxa_count taxonomy search_root rank_index taxon"
    using root search_root_holds_taxon by blast
  from process_taxon_nonempty [OF 1 root] obtain cands where
    "process_taxon t taxonomy rank_index taxon fm = Inr (AList.update taxon cands fm)" "cands \<noteq> []"
    by blast
  then have 2: "\<exists>cands. process_taxon t taxonomy rank_index taxon fm = Inr (AList.update taxon cands fm)
             \<and> 1 \<le> length cands"
    by (metis One_nat_def Suc_leI length_greater_0_conv)
  have 3: "\<forall>fm'. fmeasure t taxonomy = Inr fm' \<longrightarrow> (\<forall>(k, cands) \<in> set fm'. 1 \<le> length cands)"
  proof (intro allI impI)
    fix fm' assume "fmeasure t taxonomy = Inr fm'"
    then have "\<forall>(k, c) \<in> set fm'. c \<noteq> []" by (rule fmeasure_nonempty)
    then show "\<forall>(k, cands) \<in> set fm'. 1 \<le> length cands"
      by (auto simp: Suc_le_eq)
  qed
  from 1 2 3 show ?thesis by blast
qed


theorem C9_processed_taxon_has_candidates_witness:
  "taxon_parent_node example_tree example_taxonomy
      [(''d__D'', [(example_tree, 4 / 5, 2 / 3, 1)])] 1 ''p__P'' = Inr (Some example_tree)
   \<and> 0 < taxa_count example_taxonomy example_tree 1 ''p__P''
   \<and> (\<exists>cands. process_taxon example_tree example_taxonomy 1 ''p__P''
                  [(''d__D'', [(example_tree, 4 / 5, 2 / 3, 1)])]
                = Inr (AList.update ''p__P'' cands [(''d__D'', [(example_tree, 4 / 5, 2 / 3, 1)])])
              \<and> 1 \<le> length cands)"
proof -
  have keys: "distinct (map fst example_taxonomy)"
    by (simp add: example_taxonomy_def)
  have recs: "\<forall>(taxon_id, taxa) \<in> set example_taxonomy. length taxa = length rank_prefixes"
    by (simp add: example_taxonomy_def rank_prefixes_def)
  have leaves: "fst ` set example_taxonomy \<subseteq> leaf_taxon ` set (leaf_iter example_tree)"
    by (simp add: example_taxonomy_def example_tree_def)
  have rank: "1 < length rank_labels"
    by (simp add: rank_labels_def)
  have taxon: "''p__P'' \<in> set (named_lineages_at_rank example_taxonomy 1)"
    by (simp add: named_lineages_at_rank_def example_taxonomy_def rank_prefixes_def)
  have root: "taxon_parent_node example_tree example_taxonomy
      [(''d__D'', [(example_tree, 4 / 5, 2 / 3, 1)])] 1 ''p__P'' = Inr (Some example_tree)"
    by code_simp
  from C9_processed_taxon_has_candidates [OF keys recs leaves rank taxon root] root
  show ?thesis by blast
qed


lemma leaf_iter_nonempty: "leaf_iter n \<noteq> []"
proof (induction n rule: leaf_iter.induct)
  case (1 i l cs)
  show ?case
  proof (cases cs)
    case Nil
    then show ?thesis by simp
  next
    case (Cons c cs')
    with 1 have "leaf_iter c \<noteq> []" by simp
    with Cons show ?thesis by simp
  qed
qed

lemma leaf_iter_subtree:
  "n \<in> set (preorder_iter t) \<Longrightarrow> set (leaf_iter n) \<subseteq> set (leaf_iter t)"
proof (induction t rule: preorder_iter.induct)
  case (1 i l cs)
  show ?case
  proof (cases "n = Node i l cs")
    case True
    then show ?thesis by simp
  next
    case False
    with 1(2) obtain c where c: "c \<in> set cs" "n \<in> set (preorder_iter c)" by auto
    then have "set (leaf_iter n) \<subseteq> set (leaf_iter c)" by (rule 1(1))
    with c(1) show ?thesis by auto
  qed
qed

lemma mrca_from_node: "mrca_from taxa t \<in> set (preorder_iter t)"
proof (induction taxa t rule: mrca_from.induct)
  case (1 taxa i l cs)
  show ?case
  proof (cases "find (holds_taxa taxa) cs")
    case None
    then show ?thesis by simp
  next
    case (Some c)
    then have "c \<in> set cs" by (auto simp: find_Some_iff)
    moreover have "mrca_from taxa c \<in> set (preorder_iter c)" using 1 Some by simp
    ultimately show ?thesis using Some by auto
  qed
qed

lemma mrca_from_holds: "holds_taxa taxa t \<Longrightarrow> holds_taxa taxa (mrca_from taxa t)"
proof (induction taxa t rule: mrca_from.induct)
  case (1 taxa i l cs)
  show ?case
  proof (cases "find (holds_taxa taxa) cs")
    case None
    with 1(2) show ?thesis by simp
  next
    case (Some c)
    then have "holds_taxa taxa c" by (auto simp: find_Some_iff)
    with 1(1) Some show ?thesis by simp
  qed
qed

lemma mrca_from_lowest: "\<forall>c \<in> set (child_nodes (mrca_from taxa t)). \<not> holds_taxa taxa c"
proof (induction taxa t rule: mrca_from.induct)
  case (1 taxa i l cs)
  show ?case
  proof (cases "find (holds_taxa taxa) cs")
    case None
    then have "mrca_from taxa (Node i l cs) = Node i l cs" by simp
    moreover from None have "\<forall>c \<in> set cs. \<not> holds_taxa taxa c"
      by (simp add: find_None_iff)
    ultimately show ?thesis by simp
  next
    case (Some c)
    with 1 show ?thesis by simp
  qed
qed

lemma parents_inner_nonempty:
  assumes "taxa \<noteq> []" "\<forall>i \<in> set is. 1 \<le> i" "q x \<noteq> [] \<or> x \<in> (\<lambda>i. taxa ! i) ` set is"
  shows "fold (\<lambda>i q. q(taxa ! i := take i taxa)) is q x \<noteq> []"
  using assms
proof (induction "is" arbitrary: q)
  case Nil
  then show ?case by simp
next
  case (Cons i "is")
  have t: "take i taxa \<noteq> []" using Cons.prems(1, 2) by (cases taxa) auto
  have "(q(taxa ! i := take i taxa)) x \<noteq> [] \<or> x \<in> (\<lambda>i. taxa ! i) ` set is"
    using Cons.prems(3) t by auto
  with Cons.prems(1, 2) have "fold (\<lambda>i q. q(taxa ! i := take i taxa)) is (q(taxa ! i := take i taxa)) x \<noteq> []"
    by (intro Cons.IH) auto
  then show ?case by (simp del: fun_upd_apply)
qed

lemma parents_record_nonempty:
  assumes "snd rec \<noteq> []"
    and "p x \<noteq> [] \<or> (\<exists>i. 1 \<le> i \<and> i < length (snd rec) \<and> x = snd rec ! i)"
  shows "parents_record p rec x \<noteq> []"
  unfolding parents_record_def
proof (rule parents_inner_nonempty)
  show "snd rec \<noteq> []" by (rule assms(1))
  show "\<forall>i \<in> set [1..<length (snd rec)]. 1 \<le> i" by simp
  show "(p(fst rec := snd rec)) x \<noteq> [] \<or> x \<in> (!) (snd rec) ` set [1..<length (snd rec)]"
    using assms by auto
qed

lemma parents_fold_nonempty:
  assumes "\<forall>rec \<in> set recs. snd rec \<noteq> []"
    and "p x \<noteq> [] \<or> (\<exists>rec \<in> set recs. \<exists>i. 1 \<le> i \<and> i < length (snd rec) \<and> x = snd rec ! i)"
  shows "fold (\<lambda>rec p. parents_record p rec) recs p x \<noteq> []"
  using assms
proof (induction recs arbitrary: p)
  case Nil
  then show ?case by simp
next
  case (Cons rec recs)
  have ne: "snd rec \<noteq> []" using Cons.prems(1) by simp
  have "parents_record p rec x \<noteq> []
          \<or> (\<exists>rec \<in> set recs. \<exists>i. 1 \<le> i \<and> i < length (snd rec) \<and> x = snd rec ! i)"
    using Cons.prems(2) parents_record_nonempty [OF ne, of p x] by auto
  with Cons.prems(1) have "fold (\<lambda>rec p. parents_record p rec) recs (parents_record p rec) x \<noteq> []"
    by (intro Cons.IH) auto
  then show ?case by simp
qed

lemma parents_nonempty:
  assumes recs: "\<forall>(taxon_id, taxa) \<in> set taxonomy. length taxa = length rank_prefixes"
    and rank: "rank_index \<noteq> 0" "rank_index < length rank_labels"
    and taxon: "taxon \<in> set (named_lineages_at_rank taxonomy rank_index)"
  shows "parents taxonomy taxon \<noteq> []"
proof -
  from taxon obtain taxon_id taxa where r: "(taxon_id, taxa) \<in> set taxonomy"
      "taxa ! rank_index = taxon"
    using named_lineage_record by blast
  have ne: "\<forall>rec \<in> set taxonomy. snd rec \<noteq> []"
    using recs by (auto simp: rank_prefixes_def)
  have "length taxa = length rank_labels"
    using recs r(1) by (auto simp: rank_prefixes_def rank_labels_def)
  with r rank have "\<exists>rec \<in> set taxonomy. \<exists>i. 1 \<le> i \<and> i < length (snd rec) \<and> taxon = snd rec ! i"
    by (intro bexI [of _ "(taxon_id, taxa)"] exI [of _ rank_index]) auto
  then show ?thesis
    unfolding parents_def using ne by (intro parents_fold_nonempty) auto
qed


lemma mrca_of_candidates:
  assumes "1 < length data" "\<forall>c \<in> set data. fst c \<in> set (preorder_iter t)"
  shows "mrca t (concat (map (\<lambda>p. map leaf_taxon (leaf_iter p)) (map fst data)))
           = Inr (mrca_from (concat (map (\<lambda>p. map leaf_taxon (leaf_iter p)) (map fst data))) t)
         \<and> holds_taxa (concat (map (\<lambda>p. map leaf_taxon (leaf_iter p)) (map fst data))) t"
proof -
  let ?L = "concat (map (\<lambda>p. map leaf_taxon (leaf_iter p)) (map fst data))"
  from assms(1) obtain c cs where d: "data = c # cs" by (cases data) auto
  have "leaf_iter (fst c) \<noteq> []" by (rule leaf_iter_nonempty)
  with d have ne: "?L \<noteq> []" by simp
  have h: "holds_taxa ?L t"
    unfolding holds_taxa_def using assms(2) leaf_iter_subtree by fastforce
  from ne h show ?thesis by (simp add: mrca_def)
qed


lemma set_sort_taxa:
  "set (sort_taxa taxa reverse) = {taxon \<in> set taxa. \<exists>p \<in> set rank_prefixes. startswith taxon p}"
  by (auto simp: sort_taxa_def Let_def)



lemma insert_Collect_Cons:
  "P y \<Longrightarrow> insert y A \<union> {x \<in> set ys. P x} = A \<union> {x \<in> set (y # ys). P x}"
  by auto

lemma create_label_update:
  "create_label (lbl_support l) toks (lbl_aux l) = l\<lparr>lbl_taxa := toks\<rparr>"
  by (cases l) (simp add: create_label_def)

lemma assign_taxon_single:
  assumes "map_of fm taxon = Some [c]"
  shows "assign_taxon fm taxon (placed, lbls)
           = Inr (insert taxon placed,
                  lbls(nid (fst c) := (lbls (nid (fst c)))
                         \<lparr>lbl_taxa := lbl_taxa (lbls (nid (fst c))) @ [taxon]\<rparr>))"
  using assms
  by (cases c) (simp add: assign_taxon_def parse_label_def create_label_update)

lemma assign_taxon_other:
  assumes "map_of fm taxon = Some data" "length data \<noteq> 1"
  shows "assign_taxon fm taxon (placed, lbls) = Inr (placed, lbls)"
  using assms by (simp add: assign_taxon_def)

lemma assign_loop_spec:
  assumes "set taxa \<subseteq> fst ` set fm"
  shows "assign_loop fm taxa (placed, lbls)
           = Inr (placed \<union> {x \<in> set taxa. \<exists>c. map_of fm x = Some [c]},
                  \<lambda>i. (lbls i)\<lparr>lbl_taxa := lbl_taxa (lbls i)
                           @ filter (\<lambda>x. \<exists>c. map_of fm x = Some [c] \<and> nid (fst c) = i) taxa\<rparr>)"
  using assms
proof (induction taxa arbitrary: placed lbls)
  case Nil
  show ?case by simp
next
  case (Cons taxon taxa)
  then have sub: "set taxa \<subseteq> fst ` set fm" by simp
  from Cons.prems obtain data where d: "map_of fm taxon = Some data"
    by (cases "map_of fm taxon") (auto simp: map_of_eq_None_iff)
  show ?case
  proof (cases "length data = 1")
    case False
    then have n: "\<not> (\<exists>c. map_of fm taxon = Some [c])" using d by auto
    have "assign_loop fm (taxon # taxa) (placed, lbls) = assign_loop fm taxa (placed, lbls)"
      using assign_taxon_other [OF d False] by simp
    also note Cons.IH [OF sub]
    finally show ?thesis using n by auto
  next
    case True
    then obtain c where c: "data = [c]" by (cases data) auto
    let ?l = "lbls(nid (fst c) := (lbls (nid (fst c)))
                         \<lparr>lbl_taxa := lbl_taxa (lbls (nid (fst c))) @ [taxon]\<rparr>)"
    have "assign_loop fm (taxon # taxa) (placed, lbls)
            = assign_loop fm taxa (insert taxon placed, ?l)"
      using assign_taxon_single [of fm taxon c] d c by simp
    also note Cons.IH [OF sub]
    finally have e: "assign_loop fm (taxon # taxa) (placed, lbls)
       = Inr (insert taxon placed \<union> {x \<in> set taxa. \<exists>c. map_of fm x = Some [c]},
              \<lambda>i. (?l i)\<lparr>lbl_taxa := lbl_taxa (?l i)
                       @ filter (\<lambda>x. \<exists>c. map_of fm x = Some [c] \<and> nid (fst c) = i) taxa\<rparr>)" .
    have p: "\<exists>c'. map_of fm taxon = Some [c']" using d c by blast
    have q: "(\<exists>c'. map_of fm taxon = Some [c'] \<and> nid (fst c') = i) \<longleftrightarrow> nid (fst c) = i" for i
      using d c by simp
    have 1: "insert taxon placed \<union> {x \<in> set taxa. \<exists>c. map_of fm x = Some [c]}
               = placed \<union> {x \<in> set (taxon # taxa). \<exists>c. map_of fm x = Some [c]}"
      using p by (rule insert_Collect_Cons)
    have 2: "(\<lambda>i. (?l i)\<lparr>lbl_taxa := lbl_taxa (?l i)
                       @ filter (\<lambda>x. \<exists>c. map_of fm x = Some [c] \<and> nid (fst c) = i) taxa\<rparr>)
             = (\<lambda>i. (lbls i)\<lparr>lbl_taxa := lbl_taxa (lbls i)
                       @ filter (\<lambda>x. \<exists>c. map_of fm x = Some [c] \<and> nid (fst c) = i) (taxon # taxa)\<rparr>)"
      by (intro ext) (simp add: q del: split_paired_Ex)
    from e show ?thesis unfolding 1 2 .
  qed
qed

lemma assign_taxon_labels_spec:
  "assign_taxon_labels fm lbls
     = Inr ({x \<in> set (sort_taxa (map fst fm) False). \<exists>c. map_of fm x = Some [c]},
            \<lambda>i. (lbls i)\<lparr>lbl_taxa := lbl_taxa (lbls i)
                     @ filter (\<lambda>x. \<exists>c. map_of fm x = Some [c] \<and> nid (fst c) = i)
                         (sort_taxa (map fst fm) False)\<rparr>)"
proof -
  have "set (sort_taxa (map fst fm) False) \<subseteq> fst ` set fm"
    by (auto simp: set_sort_taxa)
  from assign_loop_spec [OF this, of "{}" lbls] show ?thesis
    by (simp add: assign_taxon_labels_def)
qed





text \<open>
  C1. The node whose subtree is searched for a taxon of a rank. At the most general
  rank it is the seed node. At a finer rank, with the parent taxon absent from the
  dict, the taxon is passed over: the dict stays as it is, and the assignment gives no
  label to a taxon without entry. With one candidate for the parent it is that
  candidate's node; with several it is the node that \<open>mrca\<close> returns for the leaves
  below all of them, a node of the tree that holds all these leaves while none of its
  children does; in both cases the seed node replaces it when it holds fewer than
  half of the entries of the taxon in the tree. The records of the taxonomy have one
  entry per rank, and the candidates in the dict are nodes of the tree.
\<close>

theorem C1_search_root:
  assumes recs: "\<forall>(taxon_id, taxa) \<in> set taxonomy. length taxa = length rank_prefixes"
    and rank: "rank_index < length rank_labels"
    and taxon: "taxon \<in> set (named_lineages_at_rank taxonomy rank_index)"
    and nodes: "\<forall>(k, cands) \<in> set fm. \<forall>c \<in> set cands. fst c \<in> set (preorder_iter t)"
  shows "(rank_index = 0 \<longrightarrow>
            taxon_parent_node t taxonomy fm rank_index taxon = Inr (Some t))
       \<and> (rank_index \<noteq> 0 \<and> map_of fm (last (parents taxonomy taxon)) = None \<longrightarrow>
            taxon_parent_node t taxonomy fm rank_index taxon = Inr None
          \<and> process_taxon t taxonomy rank_index taxon fm = Inr fm)
       \<and> (\<forall>c. rank_index \<noteq> 0 \<and> map_of fm (last (parents taxonomy taxon)) = Some [c] \<longrightarrow>
            taxon_parent_node t taxonomy fm rank_index taxon
              = Inr (Some (if of_nat (taxa_count taxonomy (fst c) rank_index taxon)
                                < (1 / 2 :: rat) * of_nat (taxa_in_tree taxonomy t taxon)
                           then t else fst c)))
       \<and> (\<forall>data leaves m.
            rank_index \<noteq> 0 \<and> map_of fm (last (parents taxonomy taxon)) = Some data
            \<and> 1 < length data
            \<and> leaves = concat (map (\<lambda>p. map leaf_taxon (leaf_iter (fst p))) data)
            \<and> m = mrca_from leaves t \<longrightarrow>
            taxon_parent_node t taxonomy fm rank_index taxon
              = Inr (Some (if of_nat (taxa_count taxonomy m rank_index taxon)
                                < (1 / 2 :: rat) * of_nat (taxa_in_tree taxonomy t taxon)
                           then t else m))
          \<and> m \<in> set (preorder_iter t) \<and> holds_taxa leaves m
          \<and> (\<forall>child \<in> set (child_nodes m). \<not> holds_taxa leaves child))
       \<and> (\<forall>fm0 lbls placed lbls'.
            taxon \<notin> fst ` set fm0 \<and> assign_taxon_labels fm0 lbls = Inr (placed, lbls') \<longrightarrow>
            taxon \<notin> placed
          \<and> (\<forall>i. taxon \<in> set (lbl_taxa (lbls' i)) \<longrightarrow> taxon \<in> set (lbl_taxa (lbls i))))"
proof (intro conjI allI impI)
  assume "rank_index = 0"
  then show "taxon_parent_node t taxonomy fm rank_index taxon = Inr (Some t)"
    by (simp add: taxon_parent_node_def)
next
  assume a: "rank_index \<noteq> 0 \<and> map_of fm (last (parents taxonomy taxon)) = None"
  then have p: "parents taxonomy taxon \<noteq> []"
    using parents_nonempty [OF recs _ rank taxon] by simp
  with a show 1: "taxon_parent_node t taxonomy fm rank_index taxon = Inr None"
    by (simp add: taxon_parent_node_def)
  then show "process_taxon t taxonomy rank_index taxon fm = Inr fm"
    by (simp add: process_taxon_def)
next
  fix c
  assume a: "rank_index \<noteq> 0 \<and> map_of fm (last (parents taxonomy taxon)) = Some [c]"
  then have p: "parents taxonomy taxon \<noteq> []"
    using parents_nonempty [OF recs _ rank taxon] by simp
  with a show "taxon_parent_node t taxonomy fm rank_index taxon
              = Inr (Some (if of_nat (taxa_count taxonomy (fst c) rank_index taxon)
                                < (1 / 2 :: rat) * of_nat (taxa_in_tree taxonomy t taxon)
                           then t else fst c))"
    by (simp add: taxon_parent_node_def)
next
  fix data leaves m
  assume a: "rank_index \<noteq> 0 \<and> map_of fm (last (parents taxonomy taxon)) = Some data
            \<and> 1 < length data
            \<and> leaves = concat (map (\<lambda>p. map leaf_taxon (leaf_iter (fst p))) data)
            \<and> m = mrca_from leaves t"
  then have p: "parents taxonomy taxon \<noteq> []"
    using parents_nonempty [OF recs _ rank taxon] by simp
  from a have "(last (parents taxonomy taxon), data) \<in> set fm"
    by (intro map_of_SomeD) simp
  with nodes have n: "\<forall>c \<in> set data. fst c \<in> set (preorder_iter t)" by auto
  have l: "leaves = concat (map (\<lambda>p. map leaf_taxon (leaf_iter p)) (map fst data))"
    using a by (simp add: comp_def)
  from a have len: "1 < length data" by simp
  from mrca_of_candidates [OF len n]
  have mr: "mrca t leaves = Inr m" and h: "holds_taxa leaves t"
    using a l by simp_all
  have lm: "length (map fst data) \<noteq> 1" using len by simp
  show "taxon_parent_node t taxonomy fm rank_index taxon
              = Inr (Some (if of_nat (taxa_count taxonomy m rank_index taxon)
                                < (1 / 2 :: rat) * of_nat (taxa_in_tree taxonomy t taxon)
                           then t else m))"
    unfolding taxon_parent_node_def Let_def using a p lm mr l by simp
  show "m \<in> set (preorder_iter t)" using a mrca_from_node by simp
  show "holds_taxa leaves m" using a h mrca_from_holds by simp
  show "\<forall>child \<in> set (child_nodes m). \<not> holds_taxa leaves child"
    using a mrca_from_lowest by blast
next
  fix fm0 lbls placed lbls'
  assume a: "taxon \<notin> fst ` set fm0 \<and> assign_taxon_labels fm0 lbls = Inr (placed, lbls')"
  then have n: "map_of fm0 taxon = None" by (simp add: map_of_eq_None_iff)
  from a have p: "placed = {x \<in> set (sort_taxa (map fst fm0) False). \<exists>c. map_of fm0 x = Some [c]}"
    and l: "lbls' = (\<lambda>i. (lbls i)\<lparr>lbl_taxa := lbl_taxa (lbls i)
                     @ filter (\<lambda>x. \<exists>c. map_of fm0 x = Some [c] \<and> nid (fst c) = i)
                         (sort_taxa (map fst fm0) False)\<rparr>)"
    by (simp_all add: assign_taxon_labels_spec)
  show "taxon \<notin> placed" unfolding p using n by simp
  fix i
  assume "taxon \<in> set (lbl_taxa (lbls' i))"
  then show "taxon \<in> set (lbl_taxa (lbls i))"
    unfolding l using n by (simp del: split_paired_Ex)
qed

theorem C1_search_root_witness:
  "taxon_parent_node clade_tree clade_taxonomy tied_fmeasures 1 ''p__P'' = Inr (Some clade_tree)
   \<and> mrca_from [''a'', ''b''] clade_tree = Node 1 [] [Node 2 ''a'' [], Node 3 ''b'' []]
   \<and> taxa_count clade_taxonomy (Node 1 [] [Node 2 ''a'' [], Node 3 ''b'' []]) 1 ''p__P'' = 0
   \<and> taxa_in_tree clade_taxonomy clade_tree ''p__P'' = 2"
proof -
  have recs: "\<forall>(taxon_id, taxa) \<in> set clade_taxonomy. length taxa = length rank_prefixes"
    by (simp add: clade_taxonomy_def rank_prefixes_def)
  have rank: "1 < length rank_labels" by (simp add: rank_labels_def)
  have taxon: "''p__P'' \<in> set (named_lineages_at_rank clade_taxonomy 1)"
    by (simp add: named_lineages_at_rank_def clade_taxonomy_def rank_prefixes_def)
  have nodes: "\<forall>(k, cands) \<in> set tied_fmeasures. \<forall>c \<in> set cands. fst c \<in> set (preorder_iter clade_tree)"
    by (simp add: tied_fmeasures_def clade_tree_def)
  have par: "last (parents clade_taxonomy ''p__P'') = ''d__D''" by code_simp
  have m: "mrca_from [''a'', ''b''] clade_tree = Node 1 [] [Node 2 ''a'' [], Node 3 ''b'' []]"
    by code_simp
  have c: "taxa_count clade_taxonomy (Node 1 [] [Node 2 ''a'' [], Node 3 ''b'' []]) 1 ''p__P'' = 0"
    by code_simp
  have i: "taxa_in_tree clade_taxonomy clade_tree ''p__P'' = 2" by code_simp
  have pre: "(1::nat) \<noteq> 0
       \<and> map_of tied_fmeasures (last (parents clade_taxonomy ''p__P''))
           = Some [(Node 2 ''a'' [], 2 / 5, 1, 1 / 4), (Node 3 ''b'' [], 2 / 5, 1, 1 / 4)]
       \<and> 1 < length [(Node 2 ''a'' [], 2 / 5 :: rat, 1 :: rat, 1 / 4 :: rat),
                      (Node 3 ''b'' [], 2 / 5, 1, 1 / 4)]
       \<and> [''a'', ''b''] = concat (map (\<lambda>p. map leaf_taxon (leaf_iter (fst p)))
            [(Node 2 ''a'' [], 2 / 5 :: rat, 1 :: rat, 1 / 4 :: rat), (Node 3 ''b'' [], 2 / 5, 1, 1 / 4)])
       \<and> Node 1 [] [Node 2 ''a'' [], Node 3 ''b'' []] = mrca_from [''a'', ''b''] clade_tree"
    unfolding par m by (simp add: tied_fmeasures_def)
  from C1_search_root [OF recs rank taxon nodes] pre
  have "taxon_parent_node clade_tree clade_taxonomy tied_fmeasures 1 ''p__P''
          = Inr (Some (if of_nat (taxa_count clade_taxonomy (Node 1 [] [Node 2 ''a'' [], Node 3 ''b'' []]) 1 ''p__P'')
                            < (1 / 2 :: rat) * of_nat (taxa_in_tree clade_taxonomy clade_tree ''p__P'')
                       then clade_tree else Node 1 [] [Node 2 ''a'' [], Node 3 ''b'' []]))"
    by blast
  then have "taxon_parent_node clade_tree clade_taxonomy tied_fmeasures 1 ''p__P'' = Inr (Some clade_tree)"
    unfolding c i by simp
  with m c i show ?thesis by simp
qed





















lemma resolve_loop_singles:
  assumes "\<forall>k \<in> set taxa. \<exists>data. map_of fm k = Some data \<and> length data = 1"
  shows "resolve_loop median_rank_rd rel_dist max_rd_diff taxa (fm, lbls) = Inr (fm, lbls)"
  using assms
proof (induction taxa)
  case Nil
  show ?case by simp
next
  case (Cons taxon taxa)
  then obtain data where "map_of fm taxon = Some data" "length data = 1" by auto
  then have "resolve_taxon median_rank_rd rel_dist max_rd_diff taxon (fm, lbls) = Inr (fm, lbls)"
    by (simp add: resolve_taxon_def)
  with Cons show ?case by simp
qed

lemma resolve_all_single:
  assumes "\<forall>k \<in> fst ` set fm. \<exists>data. map_of fm k = Some data \<and> length data = 1"
  shows "resolve_ambiguous_placements fm lbls median_rank_rd rel_dist max_rd_diff = Inr (fm, lbls)"
  unfolding resolve_ambiguous_placements_def
  using assms by (intro resolve_loop_singles) (auto simp: set_sort_taxa)

text \<open>
  A run that nests a coarser label below a finer one. On the clade tree, with no labels
  at the start and whatever the divergence estimate, every taxon has a single
  placement: the domain \<open>d__D\<close> goes to the clade of a and b, and its phylum \<open>p__P\<close>,
  whose leaves c and d lie outside that clade, is searched in the whole tree and goes
  to the seed node, a strict ancestor of the clade.
\<close>

theorem C6_coarser_label_below_finer_counterexample:
  "\<forall>median_rank_rd. \<exists>lbls fm rows lines.
     run clade_tree (\<lambda>n. create_label None [] None) clade_taxonomy median_rank_rd False
       = Inr (lbls, fm, rows, lines)
     \<and> lbl_taxa (lbls 0) = [''d__E'', ''p__P'']
     \<and> lbl_taxa (lbls 1) = [''d__D'']
     \<and> nid clade_tree = 0
     \<and> (\<exists>n \<in> set (tl (preorder_iter clade_tree)). nid n = 1)
     \<and> last (parents clade_taxonomy ''p__P'') = ''d__D''
     \<and> index_of rank_prefixes (take 3 ''d__D'') = Some 0
     \<and> index_of rank_prefixes (take 3 ''p__P'') = Some 1"
proof
  fix median_rank_rd :: estimator
  let ?l0 = "\<lambda>n :: nat. create_label None [] None"
  let ?clade = "Node 1 [] [Node 2 ''a'' [], Node 3 ''b'' []]"
  define fm :: fmeasures where
    "fm = [(''d__D'', [(?clade, 2 / 3, 1, 1 / 2)]),
           (''d__E'', [(clade_tree, 5 / 7, 5 / 9, 1)]),
           (''p__P'', [(clade_tree, 1, 1, 1)])]"
  define lbls where
    "lbls = (\<lambda>i. (?l0 i)\<lparr>lbl_taxa := lbl_taxa (?l0 i)
                     @ filter (\<lambda>x. \<exists>c. map_of fm x = Some [c] \<and> nid (fst c) = i)
                         (sort_taxa (map fst fm) False)\<rparr>)"
  define placed where
    "placed = {x \<in> set (sort_taxa (map fst fm) False). \<exists>c. map_of fm x = Some [c]}"
  have strip: "strip_taxon_labels clade_tree ?l0 = ?l0"
    by (simp add: strip_taxon_labels_def internal_nodes_def clade_tree_def strip_node_def
          parse_label_def create_label_def)
  have trim: "trim_taxonomy clade_tree clade_taxonomy = clade_taxonomy"
    by code_simp
  have search: "fmeasure clade_tree clade_taxonomy = Inr fm"
    unfolding fm_def by code_simp
  have assign: "assign_taxon_labels fm ?l0 = Inr (placed, lbls)"
    unfolding placed_def lbls_def by (rule assign_taxon_labels_spec)
  have single: "\<forall>k \<in> fst ` set fm. \<exists>data. map_of fm k = Some data \<and> length data = 1"
    by (simp add: fm_def)
  have resolve: "resolve_ambiguous_placements fm lbls rank_rd rel_dist (1 / 10) = Inr (fm, lbls)"
    for rank_rd rel_dist
    using single by (rule resolve_all_single)
  have srt: "sort_taxa (map fst fm) False = [''d__D'', ''d__E'', ''p__P'']"
    by (simp add: fm_def sort_taxa_def rank_prefixes_def startswith_def)
  have table: "\<exists>rows. write_statistics_table fm = Inr rows"
    by (simp add: write_statistics_table_def srt) (simp add: fm_def)
  have l0: "lbl_taxa (lbls 0) = [''d__E'', ''p__P'']"
    unfolding lbls_def srt by (simp add: fm_def create_label_def clade_tree_def del: split_paired_Ex)
  have l1: "lbl_taxa (lbls 1) = [''d__D'']"
    unfolding lbls_def srt by (simp add: fm_def create_label_def clade_tree_def del: split_paired_Ex)
  have l2: "lbl_taxa (lbls i) = []" if "i \<noteq> 0" "i \<noteq> 1" for i
    unfolding lbls_def srt using that by (simp add: fm_def create_label_def clade_tree_def del: split_paired_Ex)
  have l1': "lbl_taxa (lbls (Suc 0)) = [''d__D'']" using l1 by simp
  have taxonomy: "\<exists>lines. write_taxonomy clade_tree lbls = Inr lines"
    by (simp add: write_taxonomy_def clade_tree_def leaf_taxa_def parse_label_def l0 l1' l2
          rank_prefixes_def Let_def)
  from table obtain rows where rows: "write_statistics_table fm = Inr rows" by blast
  from taxonomy obtain lines where lines: "write_taxonomy clade_tree lbls = Inr lines" by blast
  have "run clade_tree ?l0 clade_taxonomy median_rank_rd False = Inr (lbls, fm, rows, lines)"
    by (simp add: run_def strip trim search assign resolve rows lines split_beta)
  moreover have "nid clade_tree = 0" by (simp add: clade_tree_def)
  moreover have "\<exists>n \<in> set (tl (preorder_iter clade_tree)). nid n = 1"
    by (simp add: clade_tree_def)
  moreover have "last (parents clade_taxonomy ''p__P'') = ''d__D''" by code_simp
  moreover have "index_of rank_prefixes (take 3 ''d__D'') = Some 0"
    "index_of rank_prefixes (take 3 ''p__P'') = Some 1"
    by (simp_all add: rank_prefixes_def)
  ultimately show "\<exists>lbls fm rows lines.
     run clade_tree ?l0 clade_taxonomy median_rank_rd False = Inr (lbls, fm, rows, lines)
     \<and> lbl_taxa (lbls 0) = [''d__E'', ''p__P'']
     \<and> lbl_taxa (lbls 1) = [''d__D'']
     \<and> nid clade_tree = 0
     \<and> (\<exists>n \<in> set (tl (preorder_iter clade_tree)). nid n = 1)
     \<and> last (parents clade_taxonomy ''p__P'') = ''d__D''
     \<and> index_of rank_prefixes (take 3 ''d__D'') = Some 0
     \<and> index_of rank_prefixes (take 3 ''p__P'') = Some 1"
    using l0 l1 by blast
qed


lemma scan_stops_at:
  assumes "scan_candidates lbls rel_dist rd max_rd_diff rank_index n ds ci cd = Inr r"
    and "\<forall>c. ci = Some c \<longrightarrow> c < n"
    and "j < length ds"
    and "cur_rank_index lbls (fst (ds ! j)) = Inr k" "int rank_index < k"
  shows "\<exists>i. r = Some i \<and> i \<le> n + j"
  using assms
proof (induction ds arbitrary: n j ci cd)
  case Nil
  then show ?case by simp
next
  case (Cons d ds)
  from Cons.prems(1) obtain kd where kd: "cur_rank_index lbls (fst d) = Inr kd"
    by (cases "cur_rank_index lbls (fst d)") auto
  show ?case
  proof (cases "int rank_index < kd")
    case True
    with Cons.prems(1) kd have "r = (if ci = None then Some n else ci)" by auto
    with Cons.prems(2) show ?thesis by (cases ci) auto
  next
    case False
    with kd Cons.prems(4, 5) obtain j' where j': "j = Suc j'" by (cases j) auto
    from False kd Cons.prems(1) obtain ci' cd' where
      s: "scan_candidates lbls rel_dist rd max_rd_diff rank_index (n + 1) ds ci' cd' = Inr r"
         "ci' = ci \<or> ci' = Some n"
      by (auto split: if_splits)
    have inv: "\<forall>c. ci' = Some c \<longrightarrow> c < n + 1" using s(2) Cons.prems(2) by auto
    have "\<exists>i. r = Some i \<and> i \<le> n + 1 + j'"
      using s(1) inv Cons.prems(3, 4, 5) j' by (intro Cons.IH) auto
    then show ?thesis using j' by simp
  qed
qed

lemma scan_within:
  assumes "scan_candidates lbls rel_dist rd max_rd_diff rank_index n ds ci cd = Inr (Some i)"
    and "\<forall>c. ci = Some c \<longrightarrow> c < n + length ds"
  shows "i < n + length ds"
  using assms
proof (induction ds arbitrary: n ci cd)
  case Nil
  then show ?case by simp
next
  case (Cons d ds)
  from Cons.prems(1) obtain kd where kd: "cur_rank_index lbls (fst d) = Inr kd"
    by (cases "cur_rank_index lbls (fst d)") auto
  show ?case
  proof (cases "int rank_index < kd")
    case True
    with Cons.prems(1) kd have "Some i = (if ci = None then Some n else ci)" by auto
    with Cons.prems(2) show ?thesis by (cases ci) auto
  next
    case False
    from False kd Cons.prems(1) obtain ci' cd' where
      s: "scan_candidates lbls rel_dist rd max_rd_diff rank_index (n + 1) ds ci' cd' = Inr (Some i)"
         "ci' = ci \<or> ci' = Some n"
      by (auto split: if_splits)
    have inv: "\<forall>c. ci' = Some c \<longrightarrow> c < n + 1 + length ds" using s(2) Cons.prems(2) by auto
    from s(1) inv have "i < n + 1 + length ds" by (rule Cons.IH)
    then show ?thesis by simp
  qed
qed

lemma select_index_within:
  assumes "select_index lbls rel_dist rd max_rd_diff rank_index data = Inr idx"
  shows "idx < length data"
proof (cases "scan_candidates lbls rel_dist rd max_rd_diff rank_index 0 data None (10 ^ 9)")
  case (Inl e)
  with assms show ?thesis by (simp add: select_index_def)
next
  case (Inr r)
  show ?thesis
  proof (cases r)
    case None
    with Inr assms show ?thesis by (auto simp: select_index_def split: if_splits)
  next
    case (Some i)
    with Inr have "i < 0 + length data" by (intro scan_within) auto
    with Inr Some assms show ?thesis by (simp add: select_index_def)
  qed
qed

lemma select_index_stops:
  assumes "select_index lbls rel_dist rd max_rd_diff rank_index data = Inr idx"
    and "j < length data"
    and "cur_rank_index lbls (fst (data ! j)) = Inr k" "int rank_index < k"
  shows "idx \<le> j"
proof (cases "scan_candidates lbls rel_dist rd max_rd_diff rank_index 0 data None (10 ^ 9)")
  case (Inl e)
  with assms(1) show ?thesis by (simp add: select_index_def)
next
  case (Inr r)
  then have "\<exists>i. r = Some i \<and> i \<le> 0 + j"
    using assms(2, 3, 4) by (intro scan_stops_at) auto
  with Inr assms(1) show ?thesis by (auto simp: select_index_def)
qed

lemma preorder_iter_hd: "preorder_iter n = n # tl (preorder_iter n)"
  by (cases n) simp

lemma preorder_iter_block:
  "n \<in> set (preorder_iter t) \<Longrightarrow> \<exists>A B. preorder_iter t = A @ preorder_iter n @ B"
proof (induction t rule: preorder_iter.induct)
  case (1 i l cs)
  show ?case
  proof (cases "n = Node i l cs")
    case True
    then have "preorder_iter (Node i l cs) = [] @ preorder_iter n @ []" by simp
    then show ?thesis by blast
  next
    case False
    with 1(2) obtain c where c: "c \<in> set cs" "n \<in> set (preorder_iter c)" by auto
    then obtain A B where ab: "preorder_iter c = A @ preorder_iter n @ B"
      using 1(1) by blast
    from c(1) obtain cs1 cs2 where cs: "cs = cs1 @ c # cs2" by (auto simp: in_set_conv_decomp)
    have "preorder_iter (Node i l cs)
            = (Node i l cs # concat (map preorder_iter cs1) @ A) @ preorder_iter n
              @ (B @ concat (map preorder_iter cs2))"
      using cs ab by simp
    then show ?thesis by blast
  qed
qed

lemma strict_descendant_smaller:
  "x \<in> set (tl (preorder_iter n)) \<Longrightarrow> size x < size n"
proof (induction n arbitrary: x rule: preorder_iter.induct)
  case (1 i l cs)
  then obtain c where c: "c \<in> set cs" "x \<in> set (preorder_iter c)" by auto
  have "size x \<le> size c"
  proof (cases "x = c")
    case True
    then show ?thesis by simp
  next
    case False
    with c(2) have "x \<in> set (tl (preorder_iter c))"
      by (metis preorder_iter_hd set_ConsD)
    with 1(1) c(1) show ?thesis by fastforce
  qed
  moreover have "size c < size (Node i l cs)"
    using c(1) by (induction cs) auto
  ultimately show ?case by simp
qed

lemma subseq_pair:
  assumes "i < j" "j < length xs"
  shows "subseq [xs ! i, xs ! j] xs"
proof -
  have xs: "xs = take i xs @ xs ! i # drop (Suc i) xs"
    using assms by (intro id_take_nth_drop) simp
  have "xs ! j = drop (Suc i) xs ! (j - Suc i)" using assms by simp
  moreover have "j - Suc i < length (drop (Suc i) xs)" using assms by simp
  ultimately have "xs ! j \<in> set (drop (Suc i) xs)" by (metis nth_mem)
  then have "subseq [xs ! j] (drop (Suc i) xs)" by (simp add: subseq_singleton_left)
  then have "subseq [xs ! i, xs ! j] (xs ! i # drop (Suc i) xs)" by (rule subseq_Cons2)
  then have "subseq [xs ! i, xs ! j] (take i xs @ xs ! i # drop (Suc i) xs)"
    by (rule subseq_drop_many)
  with xs show ?thesis by simp
qed

lemma before_not_descendant:
  assumes sub: "subseq [x, y] L" and d: "distinct L"
    and block: "L = A @ y # D @ B"
  shows "x \<notin> set D"
proof
  assume xD: "x \<in> set D"
  from sub obtain us vs where l: "L = us @ x # vs" and y: "y \<in> set vs"
    by (auto dest!: list_emb_ConsD simp: subseq_singleton_left)
  from xD obtain D1 D2 where dd: "D = D1 @ x # D2" by (auto simp: in_set_conv_decomp)
  have e: "us @ x # vs = (A @ y # D1) @ x # (D2 @ B)" using l block dd by simp
  have "x \<notin> set us" "x \<notin> set vs" using d l by auto
  moreover have "x \<notin> set (A @ y # D1)" "x \<notin> set (D2 @ B)" using d block dd by auto
  ultimately have "us = A @ y # D1" using e by (metis append_Cons_eq_iff)
  then have "y \<in> set us" by simp
  with y d l show False by auto
qed


lemma subseq_set: "subseq xs ys \<Longrightarrow> set xs \<subseteq> set ys"
  by (induction rule: list_emb.induct) auto

text \<open>
  C6 (as amended). The resolver's guarantee for a taxon with tied candidates, listed
  in the preorder of a tree whose nodes have distinct identities: the candidate it
  selects never comes after a candidate whose label ends in a token of a rank strictly
  more specific than the taxon's, and so it is never a strict descendant of such a
  candidate.
\<close>

theorem C6_resolver_respects_specific_labels:
  assumes sel: "select_index lbls rel_dist rd max_rd_diff rank_index data = Inr idx"
    and order: "subseq (map fst data) (preorder_iter t)"
    and ids: "distinct (map nid (preorder_iter t))"
    and j: "j < length data"
    and spec: "cur_rank_index lbls (fst (data ! j)) = Inr k" "int rank_index < k"
  shows "idx \<le> j \<and> idx < length data
       \<and> fst (data ! idx) \<notin> set (tl (preorder_iter (fst (data ! j))))"
proof -
  let ?x = "fst (data ! idx)" and ?y = "fst (data ! j)"
  have le: "idx \<le> j" using sel j spec by (rule select_index_stops)
  have lt: "idx < length data" using sel by (rule select_index_within)
  have "?x \<notin> set (tl (preorder_iter ?y))"
  proof
    assume desc: "?x \<in> set (tl (preorder_iter ?y))"
    then have "size ?x < size ?y" by (rule strict_descendant_smaller)
    then have "idx \<noteq> j" by auto
    with le have ij: "idx < j" by simp
    have "subseq [map fst data ! idx, map fst data ! j] (map fst data)"
      using ij j by (intro subseq_pair) simp_all
    then have "subseq [?x, ?y] (map fst data)" using ij j by simp
    then have sub: "subseq [?x, ?y] (preorder_iter t)"
      using order by (rule subseq_order.trans)
    have "?y \<in> set (map fst data)" using j by simp
    with order have "?y \<in> set (preorder_iter t)"
      using subseq_set by blast
    then obtain A B where "preorder_iter t = A @ preorder_iter ?y @ B"
      using preorder_iter_block by blast
    then have block: "preorder_iter t = A @ ?y # tl (preorder_iter ?y) @ B"
      using preorder_iter_hd [of ?y] by simp
    have d: "distinct (preorder_iter t)" using ids by (simp add: distinct_map)
    from before_not_descendant [OF sub d block] desc show False by simp
  qed
  with le lt show ?thesis by simp
qed


theorem C6_resolver_respects_specific_labels_witness:
  "select_index (\<lambda>n. if n = 1 then create_label None [''p__X''] None else create_label None [] None)
     (\<lambda>n. 0) 0 (1 / 10) 0
     [(clade_tree, 1 / 2, 1 / 2, 1 / 2),
      (Node 1 [] [Node 2 ''a'' [], Node 3 ''b'' []], 1 / 2, 1 / 2, 1 / 2)] = Inr 0
   \<and> cur_rank_index
       (\<lambda>n. if n = 1 then create_label None [''p__X''] None else create_label None [] None)
       (Node 1 [] [Node 2 ''a'' [], Node 3 ''b'' []]) = Inr 1
   \<and> clade_tree \<notin> set (tl (preorder_iter (Node 1 [] [Node 2 ''a'' [], Node 3 ''b'' []])))"
proof -
  let ?l = "\<lambda>n :: nat. if n = 1 then create_label None [''p__X''] None else create_label None [] None"
  let ?d = "[(clade_tree, 1 / 2 :: rat, 1 / 2 :: rat, 1 / 2 :: rat),
             (Node 1 [] [Node 2 ''a'' [], Node 3 ''b'' []], 1 / 2, 1 / 2, 1 / 2)]"
  have sel: "select_index ?l (\<lambda>n. 0) 0 (1 / 10) 0 ?d = Inr 0"
    by (simp add: select_index_def cur_rank_index_def parse_label_def create_label_def
          rd_diff_def rank_prefixes_def clade_tree_def)
  have order: "subseq (map fst ?d) (preorder_iter clade_tree)"
    by (simp add: clade_tree_def)
  have ids: "distinct (map nid (preorder_iter clade_tree))"
    by (simp add: clade_tree_def)
  have j: "1 < length ?d" by simp
  have spec: "cur_rank_index ?l (fst (?d ! 1)) = Inr 1" "int 0 < 1"
    by (simp_all add: cur_rank_index_def parse_label_def create_label_def rank_prefixes_def)
  from C6_resolver_respects_specific_labels [OF sel order ids j spec]
  have "fst (?d ! 0) \<notin> set (tl (preorder_iter (fst (?d ! 1))))" by blast
  with sel spec(1) show ?thesis by simp
qed


text \<open>
  C8. A second run on the tree that a first run has labelled does not reproduce the
  first run's labels: \<open>_strip_taxon_labels\<close> resets a label only where the node has a
  support value that is not zero. On the example tree, whose nodes have no support
  value, the first run labels the seed node \<open>d__D; p__P\<close>; stripping leaves that
  label in place, and the second run appends both names once more. With
  \<open>skip_rd_refine\<close> a single run, which strips and assigns a second time, ends with the
  same doubled labels.
\<close>

theorem C8_rerun_duplicates_labels:
  "\<forall>median_rank_rd. \<exists>lbls fm rows lines lbls' fm' rows' lines'.
     run example_tree (\<lambda>n. create_label None [] None) example_taxonomy median_rank_rd False
       = Inr (lbls, fm, rows, lines)
     \<and> lbl_taxa (lbls 0) = [''d__D'', ''p__P'']
     \<and> lbl_taxa (strip_taxon_labels example_tree lbls 0) = [''d__D'', ''p__P'']
     \<and> run example_tree lbls example_taxonomy median_rank_rd False
       = Inr (lbls', fm', rows', lines')
     \<and> lbl_taxa (lbls' 0) = [''d__D'', ''p__P'', ''d__D'', ''p__P'']
     \<and> run example_tree (\<lambda>n. create_label None [] None) example_taxonomy median_rank_rd True
       = Inr (lbls', fm', rows', lines')"
proof
  fix median_rank_rd :: estimator
  let ?l0 = "\<lambda>n :: nat. create_label None [] None"
  define fm :: fmeasures where
    "fm = [(''d__D'', [(example_tree, 4 / 5, 2 / 3, 1)]),
           (''d__E'', [(Node 3 ''c'' [], 1, 1, 1)]),
           (''p__P'', [(example_tree, 1, 1, 1)])]"
  define assigned :: "labels \<Rightarrow> labels" where
    "assigned = (\<lambda>l i. (l i)\<lparr>lbl_taxa := lbl_taxa (l i)
                     @ filter (\<lambda>x. \<exists>c. map_of fm x = Some [c] \<and> nid (fst c) = i)
                         (sort_taxa (map fst fm) False)\<rparr>)"
  define placed where
    "placed = {x \<in> set (sort_taxa (map fst fm) False). \<exists>c. map_of fm x = Some [c]}"
  define lbls where "lbls = assigned ?l0"
  define lbls' where "lbls' = assigned lbls"
  have trim: "trim_taxonomy example_tree example_taxonomy = example_taxonomy"
    by code_simp
  have search: "fmeasure example_tree example_taxonomy = Inr fm"
    unfolding fm_def by code_simp
  have assign: "assign_taxon_labels fm l = Inr (placed, assigned l)" for l
    unfolding placed_def assigned_def by (rule assign_taxon_labels_spec)
  have single: "\<forall>k \<in> fst ` set fm. \<exists>data. map_of fm k = Some data \<and> length data = 1"
    by (simp add: fm_def)
  have resolve: "resolve_ambiguous_placements fm l rank_rd rel_dist (1 / 10) = Inr (fm, l)"
    for l rank_rd rel_dist
    using single by (rule resolve_all_single)
  have srt: "sort_taxa (map fst fm) False = [''d__D'', ''d__E'', ''p__P'']"
    by (simp add: fm_def sort_taxa_def rank_prefixes_def startswith_def)
  have table: "\<exists>rows. write_statistics_table fm = Inr rows"
    by (simp add: write_statistics_table_def srt) (simp add: fm_def)
  have a0: "lbl_taxa (assigned l 0) = lbl_taxa (l 0) @ [''d__D'', ''p__P'']" for l
    unfolding assigned_def srt
    by (simp add: fm_def example_tree_def del: split_paired_Ex)
  have a3: "lbl_taxa (assigned l 3) = lbl_taxa (l 3) @ [''d__E'']" for l
    unfolding assigned_def srt
    by (simp add: fm_def example_tree_def del: split_paired_Ex)
  have a12: "lbl_taxa (assigned l i) = lbl_taxa (l i)" if "i \<noteq> 0" "i \<noteq> 3" for l i
    unfolding assigned_def srt using that
    by (simp add: fm_def example_tree_def del: split_paired_Ex)
  have sup: "lbl_support (assigned l i) = lbl_support (l i)" for l i
    by (simp add: assigned_def)
  have strip0: "strip_taxon_labels example_tree ?l0 = ?l0"
    by (simp add: strip_taxon_labels_def internal_nodes_def example_tree_def strip_node_def
          parse_label_def create_label_def)
  have strip1: "strip_taxon_labels example_tree lbls = lbls"
    by (simp add: strip_taxon_labels_def internal_nodes_def example_tree_def strip_node_def
          parse_label_def lbls_def sup create_label_def)
  have l0: "lbl_taxa (lbls 0) = [''d__D'', ''p__P'']"
    by (simp add: lbls_def a0 create_label_def)
  have l3: "lbl_taxa (lbls 3) = [''d__E'']"
    by (simp add: lbls_def a3 create_label_def)
  have l1: "lbl_taxa (lbls (Suc 0)) = []" and l2: "lbl_taxa (lbls 2) = []"
    by (simp_all add: lbls_def a12 create_label_def)
  have m0: "lbl_taxa (lbls' 0) = [''d__D'', ''p__P'', ''d__D'', ''p__P'']"
    by (simp add: lbls'_def a0 l0)
  have m3: "lbl_taxa (lbls' 3) = [''d__E'', ''d__E'']"
    by (simp add: lbls'_def a3 l3)
  have m1: "lbl_taxa (lbls' (Suc 0)) = []" and m2: "lbl_taxa (lbls' 2) = []"
    by (simp_all add: lbls'_def a12 l1 l2)
  have tax1: "\<exists>lines. write_taxonomy example_tree lbls = Inr lines"
    by (simp add: write_taxonomy_def example_tree_def leaf_taxa_def parse_label_def l0 l1 l2 l3
          rank_prefixes_def Let_def)
  have tax2: "\<exists>lines. write_taxonomy example_tree lbls' = Inr lines"
    by (simp add: write_taxonomy_def example_tree_def leaf_taxa_def parse_label_def m0 m1 m2 m3
          rank_prefixes_def Let_def)
  from table obtain rows where rows: "write_statistics_table fm = Inr rows" by blast
  from tax1 obtain lines where lines: "write_taxonomy example_tree lbls = Inr lines" by blast
  from tax2 obtain lines' where lines': "write_taxonomy example_tree lbls' = Inr lines'" by blast
  have run1: "run example_tree ?l0 example_taxonomy median_rank_rd False = Inr (lbls, fm, rows, lines)"
    by (simp add: run_def strip0 trim search assign resolve rows lines split_beta
          lbls_def [symmetric])
  have run2: "run example_tree lbls example_taxonomy median_rank_rd False = Inr (lbls', fm, rows, lines')"
    by (simp add: run_def strip1 trim search assign resolve rows lines' split_beta
          lbls'_def [symmetric])
  have s: "lbl_taxa (strip_taxon_labels example_tree lbls 0) = [''d__D'', ''p__P'']"
    by (simp add: strip1 l0)
  have terminal: "terminal_placements fm = Inr fm"
    by (simp add: fm_def)
  have run3: "run example_tree ?l0 example_taxonomy median_rank_rd True = Inr (lbls', fm, rows, lines')"
    by (simp add: run_def strip0 trim search assign terminal rows lines' split_beta
          lbls_def [symmetric] strip1 lbls'_def [symmetric])
  from run1 l0 s run2 m0 run3 show "\<exists>lbls fm rows lines lbls' fm' rows' lines'.
     run example_tree ?l0 example_taxonomy median_rank_rd False = Inr (lbls, fm, rows, lines)
     \<and> lbl_taxa (lbls 0) = [''d__D'', ''p__P'']
     \<and> lbl_taxa (strip_taxon_labels example_tree lbls 0) = [''d__D'', ''p__P'']
     \<and> run example_tree lbls example_taxonomy median_rank_rd False
       = Inr (lbls', fm', rows', lines')
     \<and> lbl_taxa (lbls' 0) = [''d__D'', ''p__P'', ''d__D'', ''p__P'']
     \<and> run example_tree ?l0 example_taxonomy median_rank_rd True
       = Inr (lbls', fm', rows', lines')"
    by blast
qed

end
